theory Spec2Isabelle
  imports Complex_Main
begin

section \<open>Values and constants of main.js\<close>

text \<open>
  Numbers are IEEE doubles in the source and are idealised as reals here: no NaN, no
  infinities, no rounding. Strings are sequences of 8-bit characters.

  \<open>jsval\<close> is the type of the two fields of a persisted record whose type
  \<open>deserializeNotes\<close> tests, \<open>x\<close> and \<open>y\<close>: any JSON scalar, or \<open>JUndefined\<close> for a
  field that is missing.
\<close>

datatype jsval = JUndefined | JNull | JBool bool | JNum real | JStr string

text \<open>\<open>typeof v === 'number'\<close>\<close>

fun is_number :: "jsval \<Rightarrow> bool" where
  "is_number (JNum r) = True"
| "is_number v = False"

text \<open>
  The operator \<open>v || d\<close> on a number and on a string: \<open>0\<close> and the empty string are
  falsy. On an optional field, a missing (or \<open>null\<close>) field is falsy too.
\<close>

definition num_or :: "real \<Rightarrow> real \<Rightarrow> real" where
  "num_or v d = (if v \<noteq> 0 then v else d)"

definition str_or :: "string \<Rightarrow> string \<Rightarrow> string" where
  "str_or v d = (if v \<noteq> [] then v else d)"

definition opt_num_or :: "real option \<Rightarrow> real \<Rightarrow> real" where
  "opt_num_or v d = (case v of None \<Rightarrow> d | Some r \<Rightarrow> num_or r d)"

definition opt_str_or :: "string option \<Rightarrow> string \<Rightarrow> string" where
  "opt_str_or v d = (case v of None \<Rightarrow> d | Some t \<Rightarrow> str_or t d)"

record palette =
  bg :: string
  fg :: string     \<comment> \<open>the property \<open>text\<close> of a palette entry\<close>
  name :: string

definition NOTE_COLORS :: "(string \<times> palette) list" where
  "NOTE_COLORS =
    [(''yellow'', \<lparr>bg = ''#fef3c7'', fg = ''#92400e'', name = ''Yellow''\<rparr>),
     (''pink'',   \<lparr>bg = ''#fce7f3'', fg = ''#9d174d'', name = ''Pink''\<rparr>),
     (''blue'',   \<lparr>bg = ''#dbeafe'', fg = ''#1e40af'', name = ''Blue''\<rparr>),
     (''green'',  \<lparr>bg = ''#dcfce7'', fg = ''#166534'', name = ''Green''\<rparr>),
     (''gray'',   \<lparr>bg = ''#f3f4f6'', fg = ''#374151'', name = ''Gray''\<rparr>)]"

definition DEFAULT_COLOR :: string where "DEFAULT_COLOR = ''yellow''"
definition DEFAULT_WIDTH :: real where "DEFAULT_WIDTH = 240"
definition DEFAULT_HEIGHT :: real where "DEFAULT_HEIGHT = 120"
definition MIN_WIDTH :: real where "MIN_WIDTH = 120"
definition MIN_HEIGHT :: real where "MIN_HEIGHT = 80"

text \<open>
  \<open>NOTE_COLORS[key]\<close> reads an own property of the object literal or, failing that, a
  property inherited from \<open>Object.prototype\<close>; the inherited ones are functions or
  objects, so truthy, and have no \<open>bg\<close> or \<open>text\<close> of their own.
\<close>

definition object_prototype_names :: "string list" where
  "object_prototype_names =
    [''constructor'', ''hasOwnProperty'', ''isPrototypeOf'', ''propertyIsEnumerable'',
     ''toLocaleString'', ''toString'', ''valueOf'', ''__proto__'', ''__defineGetter__'',
     ''__defineSetter__'', ''__lookupGetter__'', ''__lookupSetter__'']"

datatype property = Own palette | Inherited | Missing

definition NOTE_COLORS_get :: "string \<Rightarrow> property" where
  "NOTE_COLORS_get k =
     (case map_of NOTE_COLORS k of
        Some p \<Rightarrow> Own p
      | None \<Rightarrow> if k \<in> set object_prototype_names then Inherited else Missing)"

definition palette_keys :: "string list" where
  "palette_keys = map fst NOTE_COLORS"

section \<open>Regular expressions and String.prototype.replace\<close>

text \<open>
  \<open>parseMarkdown\<close> is a chain of \<open>replace\<close> calls with global regular expressions.
  The expressions are embedded as syntax trees and run by a backtracking matcher that
  returns every way to match in the order in which JavaScript's matcher tries them; the
  head of that list is the match JavaScript finds.
\<close>

datatype cclass =
    CChar char          \<comment> \<open>a literal character\<close>
  | CDot                \<comment> \<open>\<open>.\<close>: anything but a line terminator\<close>
  | CAll                \<comment> \<open>\<open>[\s\S]\<close>\<close>
  | CSet "char list"    \<comment> \<open>\<open>[abc]\<close>\<close>
  | CNot "char list"    \<comment> \<open>\<open>[^abc]\<close>\<close>
  | CRange char char    \<comment> \<open>\<open>[a-b]\<close>; \<open>\d\<close> is \<open>[0-9]\<close>\<close>

datatype regex =
    Eps
  | Ch cclass
  | Bol                 \<comment> \<open>\<open>^\<close> under the \<open>m\<close> flag\<close>
  | Eol                 \<comment> \<open>\<open>$\<close> under the \<open>m\<close> flag\<close>
  | Seq regex regex
  | Group nat regex     \<comment> \<open>capturing group number n\<close>
  | Opt regex           \<comment> \<open>\<open>r?\<close>\<close>
  | Star bool regex     \<comment> \<open>\<open>r*\<close> when the flag is True (greedy), \<open>r*?\<close> otherwise\<close>

text \<open>\<open>r+\<close> and \<open>r+?\<close> are one \<open>r\<close> followed by \<open>r*\<close>, \<open>r*?\<close>.\<close>

definition Plus :: "bool \<Rightarrow> regex \<Rightarrow> regex" where
  "Plus g r = Seq r (Star g r)"

fun lit :: "string \<Rightarrow> regex" where
  "lit [] = Eps"
| "lit (c # cs) = Seq (Ch (CChar c)) (lit cs)"

definition is_line_terminator :: "char \<Rightarrow> bool" where
  "is_line_terminator c = (c = CHR 0x0A \<or> c = CHR 0x0D)"

fun cmatch :: "cclass \<Rightarrow> char \<Rightarrow> bool" where
  "cmatch (CChar c) x = (x = c)"
| "cmatch CDot x = (\<not> is_line_terminator x)"
| "cmatch CAll x = True"
| "cmatch (CSet cs) x = (x \<in> set cs)"
| "cmatch (CNot cs) x = (x \<notin> set cs)"
| "cmatch (CRange a b) x = (of_char a \<le> (of_char x :: nat) \<and> (of_char x :: nat) \<le> of_char b)"

type_synonym captures = "(nat \<times> string) list"

text \<open>
  A matcher state is the input before the current position (reversed), the input from
  the current position on, and the captures made so far (latest first). An iteration of
  a star that consumes nothing is rejected, as in ECMAScript.
\<close>

type_synonym mstate = "string \<times> string \<times> captures"

fun ms :: "regex \<Rightarrow> string \<Rightarrow> string \<Rightarrow> captures \<Rightarrow> mstate list" where
  "ms Eps bef aft cs = [(bef, aft, cs)]"
| "ms (Ch c) bef [] cs = []"
| "ms (Ch c) bef (x # xs) cs = (if cmatch c x then [(x # bef, xs, cs)] else [])"
| "ms Bol bef aft cs =
     (case bef of [] \<Rightarrow> [(bef, aft, cs)]
      | p # _ \<Rightarrow> if is_line_terminator p then [(bef, aft, cs)] else [])"
| "ms Eol bef aft cs =
     (case aft of [] \<Rightarrow> [(bef, aft, cs)]
      | n # _ \<Rightarrow> if is_line_terminator n then [(bef, aft, cs)] else [])"
| "ms (Seq a b) bef aft cs =
     concat (map (\<lambda>(bef', aft', cs'). ms b bef' aft' cs') (ms a bef aft cs))"
| "ms (Group n r) bef aft cs =
     map (\<lambda>(bef', aft', cs'). (bef', aft', (n, take (length aft - length aft') aft) # cs'))
       (ms r bef aft cs)"
| "ms (Opt r) bef aft cs = ms r bef aft cs @ [(bef, aft, cs)]"
| "ms (Star g r) bef aft cs =
     (let more = concat (map (\<lambda>(bef', aft', cs').
                    if length aft' < length aft then ms (Star g r) bef' aft' cs' else [])
                  (ms r bef aft cs))
      in if g then more @ [(bef, aft, cs)] else (bef, aft, cs) # more)"

text \<open>The first match starting at the current position, as \<open>RegExp.exec\<close> finds it.\<close>

definition exec :: "regex \<Rightarrow> string \<Rightarrow> string \<Rightarrow> mstate option" where
  "exec re bef aft = (case ms re bef aft [] of [] \<Rightarrow> None | m # _ \<Rightarrow> Some m)"

text \<open>
  A replacement string is a list of literal pieces and group references \<open>$n\<close>; a group
  that took no part in the match expands to the empty string.
\<close>

datatype titem = TLit string | TGrp nat

fun expand :: "titem list \<Rightarrow> captures \<Rightarrow> string" where
  "expand [] cs = []"
| "expand (TLit s # ts) cs = s @ expand ts cs"
| "expand (TGrp n # ts) cs = (case map_of cs n of Some t \<Rightarrow> t | None \<Rightarrow> []) @ expand ts cs"

text \<open>
  \<open>str.replace(re, template)\<close> for a regular expression with the \<open>g\<close> flag: scan from
  the left, replace each match and go on behind it; where nothing matches, copy one
  character. After an empty match one character is copied, as the specification of
  \<open>replace\<close> advances \<open>lastIndex\<close>.
\<close>

fun replace_from :: "regex \<Rightarrow> titem list \<Rightarrow> string \<Rightarrow> string \<Rightarrow> string" where
  "replace_from re t bef aft =
     (case exec re bef aft of
        None \<Rightarrow> (case aft of [] \<Rightarrow> [] | c # rest \<Rightarrow> c # replace_from re t (c # bef) rest)
      | Some (bef', aft', cs) \<Rightarrow>
          if length aft' < length aft
          then expand t cs @ replace_from re t bef' aft'
          else expand t cs @
            (case aft of [] \<Rightarrow> [] | c # rest \<Rightarrow> c # replace_from re t (c # bef) rest))"

definition replace :: "regex \<Rightarrow> titem list \<Rightarrow> string \<Rightarrow> string" where
  "replace re t s = replace_from re t [] s"

section \<open>parseMarkdown\<close>

fun seqs :: "regex list \<Rightarrow> regex" where
  "seqs [] = Eps"
| "seqs (r # rs) = Seq r (seqs rs)"

text \<open>
  \<open>/^### (.+)$/gm\<close>, \<open>/^## (.+)$/gm\<close>, \<open>/^# (.+)$/gm\<close> and \<open>/^&gt; (.+)$/gm\<close>:
  a prefix at the start of a line and the rest of the line.
\<close>

definition re_line :: "string \<Rightarrow> regex" where
  "re_line prefix = seqs [Bol, lit prefix, Group 1 (Plus True (Ch CDot)), Eol]"

text \<open>\<open>/```([\s\S]*?)```/g\<close>\<close>

definition re_code_block :: regex where
  "re_code_block = seqs [lit ''```'', Group 1 (Star False (Ch CAll)), lit ''```'']"

text \<open>
  \<open>/`([^`]+)`/g\<close>, \<open>/\*([^*]+)\*/g\<close> and \<open>/_([^_]+)_/g\<close>: a delimiter, one or more
  characters other than the delimiter, the delimiter.
\<close>

definition re_span :: "char \<Rightarrow> regex" where
  "re_span d = seqs [Ch (CChar d), Group 1 (Plus True (Ch (CNot [d]))), Ch (CChar d)]"

text \<open>
  \<open>/\*\*(.+?)\*\*/g\<close>, \<open>/__(.+?)__/g\<close> and \<open>/~~(.+?)~~/g\<close>: a doubled delimiter
  around a lazy \<open>.+?\<close>.
\<close>

definition re_pair :: "string \<Rightarrow> regex" where
  "re_pair d = seqs [lit d, Group 1 (Plus False (Ch CDot)), lit d]"

text \<open>\<open>/\[([^\]]+)\]\(([^)]+)\)/g\<close>\<close>

definition re_link :: regex where
  "re_link = seqs [lit ''['', Group 1 (Plus True (Ch (CNot '']''))), lit '']('',
                   Group 2 (Plus True (Ch (CNot '')''))), lit '')'']"

text \<open>\<open>/^[\-\*] (.+)$/gm\<close>\<close>

definition re_ul_item :: regex where
  "re_ul_item = seqs [Bol, Ch (CSet ''-*''), lit '' '', Group 1 (Plus True (Ch CDot)), Eol]"

text \<open>\<open>/^\d+\. (.+)$/gm\<close>\<close>

definition re_ol_item :: regex where
  "re_ol_item = seqs [Bol, Plus True (Ch (CRange CHR ''0'' CHR ''9'')), lit ''. '',
                      Group 1 (Plus True (Ch CDot)), Eol]"

text \<open>\<open>/^---$/gm\<close>\<close>

definition re_hr :: regex where
  "re_hr = seqs [Bol, lit ''---'', Eol]"

text \<open>\<open><li>.*?<\/li>\<close>, the item pattern of lines 97 and 98.\<close>

definition re_li :: regex where
  "re_li = seqs [lit ''<li>'', Star False (Ch CDot), lit ''</li>'']"

text \<open>\<open>/(<li>.*?<\/li>)(<br>)?/g\<close>\<close>

definition re_li_br :: regex where
  "re_li_br = seqs [Group 1 re_li, Opt (Group 2 (lit ''<br>''))]"

text \<open>\<open>/((?:<li>.*?<\/li>)+)/g\<close>\<close>

definition re_li_run :: regex where
  "re_li_run = Group 1 (Plus True re_li)"

text \<open>\<open><h[1-3]>\<close> and \<open><\/h[1-3]>\<close>\<close>

definition re_h_open :: regex where
  "re_h_open = seqs [lit ''<h'', Ch (CRange CHR ''1'' CHR ''3''), lit ''>'']"

definition re_h_close :: regex where
  "re_h_close = seqs [lit ''</h'', Ch (CRange CHR ''1'' CHR ''3''), lit ''>'']"

text \<open>\<open>/<br>(tag)/g\<close> and \<open>/(tag)<br>/g\<close>, both replaced by \<open>$1\<close>.\<close>

definition br_before :: "regex \<Rightarrow> regex" where
  "br_before tag = seqs [lit ''<br>'', Group 1 tag]"

definition br_after :: "regex \<Rightarrow> regex" where
  "br_after tag = seqs [Group 1 tag, lit ''<br>'']"

definition wrap :: "string \<Rightarrow> string \<Rightarrow> titem list" where
  "wrap l r = [TLit l, TGrp 1, TLit r]"

text \<open>The substitutions of lines 52 to 54, in the order of the source.\<close>

definition escape_rules :: "(regex \<times> titem list) list" where
  "escape_rules =
    [(lit ''&'', [TLit ''&amp;'']),
     (lit ''<'', [TLit ''&lt;'']),
     (lit ''>'', [TLit ''&gt;''])]"

text \<open>The substitutions of lines 57 to 94.\<close>

definition markup_rules :: "(regex \<times> titem list) list" where
  \<open>markup_rules =
    [(re_line ''### '', wrap ''<h3>'' ''</h3>''),
     (re_line ''## '', wrap ''<h2>'' ''</h2>''),
     (re_line ''# '', wrap ''<h1>'' ''</h1>''),
     (re_line ''&gt; '', wrap ''<blockquote>'' ''</blockquote>''),
     (re_code_block, wrap ''<pre><code>'' ''</code></pre>''),
     (re_span CHR ''`'', wrap ''<code>'' ''</code>''),
     (re_pair ''**'', wrap ''<strong>'' ''</strong>''),
     (re_pair ''__'', wrap ''<strong>'' ''</strong>''),
     (re_span CHR ''*'', wrap ''<em>'' ''</em>''),
     (re_span CHR ''_'', wrap ''<em>'' ''</em>''),
     (re_pair ''~~'', wrap ''<del>'' ''</del>''),
     (re_link, [TLit ''<a href="'', TGrp 2, TLit ''" target="_blank" rel="noopener">'',
                TGrp 1, TLit ''</a>'']),
     (re_ul_item, wrap ''<li>'' ''</li>''),
     (re_ol_item, wrap ''<li>'' ''</li>''),
     (re_hr, [TLit ''<hr>'']),
     (lit [CHR 0x0A], [TLit ''<br>''])]\<close>

text \<open>Lines 97 and 98.\<close>

definition list_rules :: "(regex \<times> titem list) list" where
  "list_rules =
    [(re_li_br, [TGrp 1]),
     (re_li_run, wrap ''<ul>'' ''</ul>'')]"

text \<open>Lines 101 to 110.\<close>

definition cleanup_rules :: "(regex \<times> titem list) list" where
  "cleanup_rules =
    [(br_before re_h_open, [TGrp 1]),
     (br_after re_h_close, [TGrp 1]),
     (br_before (lit ''<blockquote>''), [TGrp 1]),
     (br_after (lit ''</blockquote>''), [TGrp 1]),
     (br_before (lit ''<ul>''), [TGrp 1]),
     (br_after (lit ''</ul>''), [TGrp 1]),
     (br_before (lit ''<pre>''), [TGrp 1]),
     (br_after (lit ''</pre>''), [TGrp 1]),
     (br_before (lit ''<hr>''), [TGrp 1]),
     (br_after (lit ''<hr>''), [TGrp 1])]"

definition apply_rules :: "(regex \<times> titem list) list \<Rightarrow> string \<Rightarrow> string" where
  "apply_rules rules s = foldl (\<lambda>html (re, t). replace re t html) s rules"

definition escape_html :: "string \<Rightarrow> string" where
  "escape_html s = apply_rules escape_rules s"

definition render :: "string \<Rightarrow> string" where
  "render s = apply_rules cleanup_rules (apply_rules list_rules
                (apply_rules markup_rules (escape_html s)))"

text \<open>\<open>parseMarkdown(text)\<close>: the empty text gives the empty string.\<close>

definition parseMarkdown :: "string \<Rightarrow> string" where
  "parseMarkdown text = (if text = [] then [] else render text)"

section \<open>The canvas transform\<close>

text \<open>\<open>app.canvas.ds\<close>: the scale and the two components of the offset, owned by the host.\<close>

record ds =
  scale :: real
  offset0 :: real
  offset1 :: real

definition screenToCanvas :: "ds \<Rightarrow> real \<Rightarrow> real \<Rightarrow> real \<times> real" where
  "screenToCanvas t screenX screenY =
     (screenX / scale t - offset0 t, screenY / scale t - offset1 t)"

definition canvasToScreen :: "ds \<Rightarrow> real \<Rightarrow> real \<Rightarrow> real \<times> real" where
  "canvasToScreen t canvasX canvasY =
     ((canvasX + offset0 t) * scale t, (canvasY + offset1 t) * scale t)"

section \<open>Notes and the global state\<close>

text \<open>
  Of a note's DOM element the model keeps what the handlers write and a claim reads:
  the class \<open>selected\<close>, the content of the \<open>.sticky-note-content\<close> child (the last
  assignment to \<open>textContent\<close> or to \<open>innerHTML\<close>), its \<open>contentEditable\<close> flag and
  the two custom properties set by \<open>applyNoteColor\<close> (\<open>None\<close> when no string was
  written). Positions, sizes and the other classes of the element are not modelled.
\<close>

datatype content = TextContent string | InnerHTML string

record element =
  selected :: bool
  content :: content
  contentEditable :: bool
  note_bg :: "string option"
  note_fg :: "string option"

text \<open>The variables \<open>startX\<close>, \<open>startY\<close>, \<open>startWidth\<close>, \<open>startHeight\<close> of \<open>setupResizeHandlers\<close>.\<close>

record resize_start =
  startX :: real
  startY :: real
  startWidth :: real
  startHeight :: real

text \<open>
  A \<open>noteData\<close> object. \<open>resizing\<close> is the closure state of \<open>setupResizeHandlers\<close>
  (\<open>None\<close> when \<open>isResizing\<close> is false) and \<open>isDragging\<close> that of
  \<open>setupNoteEventHandlers\<close>.
\<close>

record noteData =
  note_id :: nat
  element :: element
  canvasX :: real
  canvasY :: real
  width :: real
  height :: real
  note_text :: string
  color :: string
  createdAt :: real
  isEditing :: bool
  isDragging :: bool
  resizing :: "resize_start option"

text \<open>\<open>clipboardNote\<close>\<close>

record clip =
  clip_width :: real
  clip_height :: real
  clip_text :: string
  clip_color :: string

record state =
  stickyNotes :: "noteData list"
  noteIdCounter :: nat
  selectedNoteId :: "nat option"
  clipboardNote :: "clip option"
  isTKeyHeld :: bool

definition initial_state :: state where
  "initial_state = \<lparr>stickyNotes = [], noteIdCounter = 0, selectedNoteId = None,
                     clipboardNote = None, isTKeyHeld = False\<rparr>"

text \<open>
  What a handler reads from the browser when it runs: the host's transform, the clock,
  whether the focused element is an input (\<open>isTyping\<close>), the size of the canvas
  rectangle, and per note id the text content of its content element and the offsets
  of its element. Every reading of the clock within one handler gives the same value.
\<close>

record browser =
  canvas_ds :: ds
  now :: real
  isTyping :: bool
  rect_width :: real
  rect_height :: real
  textContent :: "nat \<Rightarrow> string"
  offsetLeft :: "nat \<Rightarrow> real"
  offsetTop :: "nat \<Rightarrow> real"

text \<open>
  \<open>stickyNotes.find(n => n.id === noteId)\<close> followed by a mutation of the note found,
  and \<open>findIndex\<close> followed by \<open>splice(index, 1)\<close>.
\<close>

fun update_first :: "('a \<Rightarrow> bool) \<Rightarrow> ('a \<Rightarrow> 'a) \<Rightarrow> 'a list \<Rightarrow> 'a list" where
  "update_first P f [] = []"
| "update_first P f (x # xs) = (if P x then f x # xs else x # update_first P f xs)"

fun remove_first :: "('a \<Rightarrow> bool) \<Rightarrow> 'a list \<Rightarrow> 'a list" where
  "remove_first P [] = []"
| "remove_first P (x # xs) = (if P x then xs else x # remove_first P xs)"

definition has_id :: "nat \<Rightarrow> noteData \<Rightarrow> bool" where
  "has_id i n = (note_id n = i)"

text \<open>A handler that closes over a \<open>noteData\<close> object acts on the store's entry of that id.\<close>

definition on_note :: "nat \<Rightarrow> (noteData \<Rightarrow> noteData) \<Rightarrow> state \<Rightarrow> state" where
  "on_note i f s = s\<lparr>stickyNotes := update_first (has_id i) f (stickyNotes s)\<rparr>"

definition set_selected :: "bool \<Rightarrow> noteData \<Rightarrow> noteData" where
  "set_selected b n = n\<lparr>element := (element n)\<lparr>selected := b\<rparr>\<rparr>"

section \<open>Rendering and colours\<close>

definition renderNoteContent :: "noteData \<Rightarrow> noteData" where
  "renderNoteContent noteData =
     noteData\<lparr>element := (element noteData)\<lparr>content := InnerHTML (parseMarkdown (note_text noteData))\<rparr>\<rparr>"

definition showRawContent :: "noteData \<Rightarrow> noteData" where
  "showRawContent noteData =
     noteData\<lparr>element := (element noteData)\<lparr>content := TextContent (note_text noteData)\<rparr>\<rparr>"

text \<open>
  \<open>applyNoteColor\<close>: \<open>NOTE_COLORS[colorKey] || NOTE_COLORS[DEFAULT_COLOR]\<close>, then the two
  \<open>setProperty\<close> calls. The \<open>active\<close> marks of the colour dots are not modelled.
\<close>

definition applyNoteColor :: "element \<Rightarrow> string \<Rightarrow> element" where
  "applyNoteColor noteElement colorKey =
     (let color = (case NOTE_COLORS_get colorKey of
                     Missing \<Rightarrow> NOTE_COLORS_get DEFAULT_COLOR
                   | found \<Rightarrow> found)
      in case color of
           Own p \<Rightarrow> noteElement\<lparr>note_bg := Some (bg p), note_fg := Some (fg p)\<rparr>
         | _ \<Rightarrow> noteElement\<lparr>note_bg := None, note_fg := None\<rparr>)"

definition changeNoteColor :: "string \<Rightarrow> noteData \<Rightarrow> noteData" where
  "changeNoteColor colorKey noteData =
     (if NOTE_COLORS_get colorKey = Missing then noteData
      else noteData\<lparr>color := colorKey,
                     element := applyNoteColor (element noteData) colorKey\<rparr>)"

section \<open>Selection\<close>

definition deselectAllNotes :: "state \<Rightarrow> state" where
  "deselectAllNotes s =
     (case selectedNoteId s of
        None \<Rightarrow> s
      | Some i \<Rightarrow> (on_note i (set_selected False) s)\<lparr>selectedNoteId := None\<rparr>)"

definition selectNote :: "nat \<Rightarrow> state \<Rightarrow> state" where
  "selectNote noteId s =
     on_note noteId (set_selected True) ((deselectAllNotes s)\<lparr>selectedNoteId := Some noteId\<rparr>)"

definition getSelectedNote :: "state \<Rightarrow> noteData option" where
  "getSelectedNote s =
     (case selectedNoteId s of
        None \<Rightarrow> None
      | Some i \<Rightarrow> find (has_id i) (stickyNotes s))"

definition removeNote :: "nat \<Rightarrow> state \<Rightarrow> state" where
  "removeNote noteId s =
     (case find (has_id noteId) (stickyNotes s) of
        None \<Rightarrow> s
      | Some n \<Rightarrow>
          s\<lparr>stickyNotes := remove_first (has_id noteId) (stickyNotes s),
            selectedNoteId := (if selectedNoteId s = Some noteId then None else selectedNoteId s)\<rparr>)"

definition clearAllNotes :: "state \<Rightarrow> state" where
  "clearAllNotes s = s\<lparr>stickyNotes := [], selectedNoteId := None\<rparr>"

section \<open>Editing\<close>

definition startEditing :: "noteData \<Rightarrow> noteData" where
  "startEditing noteData =
     (let n = showRawContent (noteData\<lparr>isEditing := True\<rparr>)
      in n\<lparr>element := (element n)\<lparr>contentEditable := True\<rparr>\<rparr>)"

text \<open>
  \<open>stopEditing\<close>; \<open>visible\<close> is \<open>content.textContent\<close> as the browser returns it when
  the handler runs.
\<close>

definition stopEditing :: "string \<Rightarrow> noteData \<Rightarrow> noteData" where
  "stopEditing visible noteData =
     (if \<not> isEditing noteData then noteData
      else renderNoteContent
             (noteData\<lparr>isEditing := False,
                       element := (element noteData)\<lparr>contentEditable := False\<rparr>,
                       note_text := visible\<rparr>))"

record key_event =
  key :: string
  ctrlKey :: bool
  metaKey :: bool
  shiftKey :: bool

text \<open>The \<open>keydown\<close> listener of the content element (lines 708 to 717).\<close>

definition content_onKeyDown :: "key_event \<Rightarrow> string \<Rightarrow> noteData \<Rightarrow> noteData" where
  "content_onKeyDown e visible noteData =
     (let n1 = (if key e = ''Enter'' \<and> \<not> shiftKey e then stopEditing visible noteData
                else noteData)
      in if key e = ''Escape'' then stopEditing visible n1 else n1)"

text \<open>The body of the timeout set by the \<open>blur\<close> listener of the content element.\<close>

definition content_onBlurTimeout :: "string \<Rightarrow> noteData \<Rightarrow> noteData" where
  "content_onBlurTimeout visible noteData =
     (if isEditing noteData then stopEditing visible noteData else noteData)"

section \<open>Creating notes\<close>

text \<open>
  The element as the creating functions build it before colour and markdown are applied:
  \<open>content.contentEditable = 'false'\<close>, \<open>content.textContent = text\<close>.
\<close>

definition createElement :: "string \<Rightarrow> element" where
  "createElement t = \<lparr>selected = False, content = TextContent t, contentEditable = False,
                      note_bg = None, note_fg = None\<rparr>"

definition createStickyNote :: "browser \<Rightarrow> real \<Rightarrow> real \<Rightarrow> state \<Rightarrow> state" where
  "createStickyNote d screenX screenY s =
     (let noteId = noteIdCounter s + 1;
          canvasPos = screenToCanvas (canvas_ds d) screenX screenY;
          noteData = \<lparr>note_id = noteId,
                      element = applyNoteColor (createElement ''New note...'') DEFAULT_COLOR,
                      canvasX = fst canvasPos,
                      canvasY = snd canvasPos,
                      width = DEFAULT_WIDTH,
                      height = DEFAULT_HEIGHT,
                      note_text = ''New note...'',
                      color = DEFAULT_COLOR,
                      createdAt = now d,
                      isEditing = False,
                      isDragging = False,
                      resizing = None\<rparr>
      in selectNote noteId
           (s\<lparr>noteIdCounter := noteId,
              stickyNotes := stickyNotes s @ [renderNoteContent noteData]\<rparr>))"

text \<open>The argument \<open>data\<close> of \<open>createStickyNoteFromData\<close>.\<close>

record fromData =
  d_canvasX :: real
  d_canvasY :: real
  d_width :: real
  d_height :: real
  d_text :: string
  d_color :: string
  d_createdAt :: real

definition createStickyNoteFromData :: "fromData \<Rightarrow> state \<Rightarrow> state" where
  "createStickyNoteFromData data s =
     (let noteId = noteIdCounter s + 1;
          noteWidth = num_or (d_width data) DEFAULT_WIDTH;
          noteHeight = num_or (d_height data) DEFAULT_HEIGHT;
          noteData = \<lparr>note_id = noteId,
                      element = applyNoteColor (createElement (d_text data)) (d_color data),
                      canvasX = d_canvasX data,
                      canvasY = d_canvasY data,
                      width = noteWidth,
                      height = noteHeight,
                      note_text = d_text data,
                      color = d_color data,
                      createdAt = d_createdAt data,
                      isEditing = False,
                      isDragging = False,
                      resizing = None\<rparr>
      in s\<lparr>noteIdCounter := noteId,
           stickyNotes := stickyNotes s @ [renderNoteContent noteData]\<rparr>)"

section \<open>Persistence\<close>

text \<open>
  A persisted record. \<open>x\<close> and \<open>y\<close> hold any scalar; each other field is missing
  (\<open>None\<close>) or has the type of the documented record shape.
\<close>

record saved =
  sv_id :: "nat option"
  sv_x :: jsval
  sv_y :: jsval
  sv_width :: "real option"
  sv_height :: "real option"
  sv_text :: "string option"
  sv_color :: "string option"
  sv_createdAt :: "real option"

definition serializeNote :: "browser \<Rightarrow> noteData \<Rightarrow> saved" where
  "serializeNote d note =
     \<lparr>sv_id = Some (note_id note),
      sv_x = JNum (canvasX note),
      sv_y = JNum (canvasY note),
      sv_width = Some (num_or (width note) DEFAULT_WIDTH),
      sv_height = Some (num_or (height note) DEFAULT_HEIGHT),
      sv_text = Some (note_text note),
      sv_color = Some (color note),
      sv_createdAt = Some (num_or (createdAt note) (now d))\<rparr>"

definition serializeNotes :: "browser \<Rightarrow> state \<Rightarrow> saved list" where
  "serializeNotes d s = map (serializeNote d) (stickyNotes s)"

text \<open>
  \<open>deserializeNotes\<close>: the loop over the records. A record whose \<open>x\<close> or \<open>y\<close> is not
  of type number is passed over (\<open>continue\<close>). The empty array returns at once, which
  is what the loop does on it. The screen position computed for the new element is
  not kept, since element positions are not modelled.
\<close>

fun deserializeNotes :: "browser \<Rightarrow> saved list \<Rightarrow> state \<Rightarrow> state" where
  "deserializeNotes d [] s = s"
| "deserializeNotes d (data # rest) s =
     (case sv_x data of
        JNum x \<Rightarrow>
          (case sv_y data of
             JNum y \<Rightarrow>
               deserializeNotes d rest
                 (createStickyNoteFromData
                    \<lparr>d_canvasX = x,
                     d_canvasY = y,
                     d_width = opt_num_or (sv_width data) DEFAULT_WIDTH,
                     d_height = opt_num_or (sv_height data) DEFAULT_HEIGHT,
                     d_text = opt_str_or (sv_text data) ''New note...'',
                     d_color = opt_str_or (sv_color data) DEFAULT_COLOR,
                     d_createdAt = opt_num_or (sv_createdAt data) (now d)\<rparr> s)
           | _ \<Rightarrow> deserializeNotes d rest s)
      | _ \<Rightarrow> deserializeNotes d rest s)"

section \<open>Resizing and dragging\<close>

text \<open>The three listeners of \<open>setupResizeHandlers\<close>.\<close>

definition resize_onMouseDown :: "real \<Rightarrow> real \<Rightarrow> noteData \<Rightarrow> noteData" where
  "resize_onMouseDown clientX clientY noteData =
     noteData\<lparr>resizing := Some \<lparr>startX = clientX, startY = clientY,
                                 startWidth = width noteData,
                                 startHeight = height noteData\<rparr>\<rparr>"

definition resize_onMouseMove :: "ds \<Rightarrow> real \<Rightarrow> real \<Rightarrow> noteData \<Rightarrow> noteData" where
  "resize_onMouseMove t clientX clientY noteData =
     (case resizing noteData of
        None \<Rightarrow> noteData
      | Some r \<Rightarrow>
          (let dx = clientX - startX r;
               dy = clientY - startY r;
               canvasDx = dx / scale t;
               canvasDy = dy / scale t;
               newWidth = max MIN_WIDTH (startWidth r + canvasDx);
               newHeight = max MIN_HEIGHT (startHeight r + canvasDy)
           in noteData\<lparr>width := newWidth, height := newHeight\<rparr>))"

definition resize_onMouseUp :: "noteData \<Rightarrow> noteData" where
  "resize_onMouseUp noteData = noteData\<lparr>resizing := None\<rparr>"

text \<open>
  The drag listeners of \<open>setupNoteEventHandlers\<close>. Moving only writes the element's
  position; on release the canvas position is computed from the element's offsets.
\<close>

definition drag_onMouseUp :: "browser \<Rightarrow> noteData \<Rightarrow> noteData" where
  "drag_onMouseUp d noteData =
     (if \<not> isDragging noteData then noteData
      else (let newCanvasPos = screenToCanvas (canvas_ds d)
                                 (offsetLeft d (note_id noteData)) (offsetTop d (note_id noteData))
            in noteData\<lparr>isDragging := False,
                         canvasX := fst newCanvasPos,
                         canvasY := snd newCanvasPos\<rparr>))"

section \<open>Clipboard\<close>

definition copySelectedNote :: "state \<Rightarrow> state" where
  "copySelectedNote s =
     (case getSelectedNote s of
        None \<Rightarrow> s
      | Some note \<Rightarrow>
          s\<lparr>clipboardNote := Some \<lparr>clip_width = width note, clip_height = height note,
                                    clip_text = note_text note, clip_color = color note\<rparr>\<rparr>)"

definition pasteNote :: "browser \<Rightarrow> state \<Rightarrow> state" where
  "pasteNote d s =
     (case clipboardNote s of
        None \<Rightarrow> s
      | Some c \<Rightarrow>
          (let t = canvas_ds d;
               centerScreenX = rect_width d / 2;
               centerScreenY = rect_height d / 2;
               cX = centerScreenX / scale t - offset0 t;
               cY = centerScreenY / scale t - offset1 t;
               noteId = noteIdCounter s + 1;
               noteData = \<lparr>note_id = noteId,
                           element = applyNoteColor (createElement (clip_text c)) (clip_color c),
                           canvasX = cX,
                           canvasY = cY,
                           width = clip_width c,
                           height = clip_height c,
                           note_text = clip_text c,
                           color = clip_color c,
                           createdAt = now d,
                           isEditing = False,
                           isDragging = False,
                           resizing = None\<rparr>
           in selectNote noteId
                (s\<lparr>noteIdCounter := noteId,
                   stickyNotes := stickyNotes s @ [renderNoteContent noteData]\<rparr>)))"

definition duplicateSelectedNote :: "browser \<Rightarrow> state \<Rightarrow> state" where
  "duplicateSelectedNote d s =
     (case getSelectedNote s of
        None \<Rightarrow> s
      | Some note \<Rightarrow>
          (let offset = 20;
               cX = canvasX note + offset;
               cY = canvasY note + offset;
               noteId = noteIdCounter s + 1;
               noteData = \<lparr>note_id = noteId,
                           element = applyNoteColor (createElement (note_text note)) (color note),
                           canvasX = cX,
                           canvasY = cY,
                           width = width note,
                           height = height note,
                           note_text = note_text note,
                           color = color note,
                           createdAt = now d,
                           isEditing = False,
                           isDragging = False,
                           resizing = None\<rparr>
           in selectNote noteId
                (s\<lparr>noteIdCounter := noteId,
                   stickyNotes := stickyNotes s @ [renderNoteContent noteData]\<rparr>)))"

section \<open>Listeners\<close>

text \<open>
  \<open>globalKeyDownHandler\<close> (lines 1008 to 1059) is a sequence of independent tests on
  one key event, each acting on the state the previous ones left. Each test is one
  function here, named after the comment that heads it in the source.
\<close>

definition modifier :: "key_event \<Rightarrow> bool" where
  "modifier e = (ctrlKey e \<or> metaKey e)"

definition key_create :: "browser \<Rightarrow> key_event \<Rightarrow> state \<Rightarrow> state" where
  "key_create d e s =
     (if (key e = ''t'' \<or> key e = ''T'') \<and> \<not> isTyping d then s\<lparr>isTKeyHeld := True\<rparr> else s)"

definition key_copy :: "browser \<Rightarrow> key_event \<Rightarrow> state \<Rightarrow> state" where
  "key_copy d e s =
     (if modifier e \<and> key e = ''c'' \<and> \<not> isTyping d \<and> selectedNoteId s \<noteq> None
      then copySelectedNote s else s)"

definition key_paste :: "browser \<Rightarrow> key_event \<Rightarrow> state \<Rightarrow> state" where
  "key_paste d e s =
     (if modifier e \<and> key e = ''v'' \<and> \<not> isTyping d \<and> clipboardNote s \<noteq> None
      then pasteNote d s else s)"

definition key_duplicate :: "browser \<Rightarrow> key_event \<Rightarrow> state \<Rightarrow> state" where
  "key_duplicate d e s =
     (if modifier e \<and> key e = ''d'' \<and> \<not> isTyping d \<and> selectedNoteId s \<noteq> None
      then duplicateSelectedNote d s else s)"

definition key_delete :: "browser \<Rightarrow> key_event \<Rightarrow> state \<Rightarrow> state" where
  "key_delete d e s =
     (if (key e = ''Delete'' \<or> key e = ''Backspace'') \<and> \<not> isTyping d
      then (case selectedNoteId s of None \<Rightarrow> s | Some i \<Rightarrow> removeNote i s)
      else s)"

definition key_escape :: "browser \<Rightarrow> key_event \<Rightarrow> state \<Rightarrow> state" where
  "key_escape d e s =
     (if key e = ''Escape''
      then (case getSelectedNote s of
              None \<Rightarrow> deselectAllNotes s
            | Some selectedNote \<Rightarrow>
                if isEditing selectedNote
                then on_note (note_id selectedNote)
                       (stopEditing (textContent d (note_id selectedNote))) s
                else deselectAllNotes s)
      else s)"

definition globalKeyDownHandler :: "browser \<Rightarrow> key_event \<Rightarrow> state \<Rightarrow> state" where
  "globalKeyDownHandler d e s =
     key_escape d e (key_delete d e (key_duplicate d e (key_paste d e (key_copy d e
       (key_create d e s)))))"

definition globalKeyUpHandler :: "key_event \<Rightarrow> state \<Rightarrow> state" where
  "globalKeyUpHandler e s =
     (if key e = ''t'' \<or> key e = ''T'' then s\<lparr>isTKeyHeld := False\<rparr> else s)"

text \<open>
  What \<open>e.target.classList\<close> contains, as far as the \<open>mousedown\<close> listeners test it.
\<close>

datatype target = Close_button | Color_dot | Colors_row | Elsewhere

text \<open>
  One event is one run of one listener. The listeners of a note sit on its element and
  on the document until \<open>removeNote\<close> or \<open>clearAllNotes\<close> takes them away, so an event
  of a note that is not in the store does nothing. A colour dot exists for each key of
  \<open>NOTE_COLORS\<close> and for nothing else.
\<close>

datatype event =
    KeyDown key_event                 \<comment> \<open>\<open>keydown\<close> on the document\<close>
  | KeyUp key_event                   \<comment> \<open>\<open>keyup\<close> on the document\<close>
  | WindowBlur
  | CanvasClick real real             \<comment> \<open>\<open>click\<close> on the canvas, position relative to the overlay\<close>
  | OverlayMouseDown                  \<comment> \<open>\<open>mousedown\<close> on the overlay itself\<close>
  | NoteMouseDown nat target          \<comment> \<open>\<open>mousedown\<close> reaching the listener of a note's element\<close>
  | HeaderMouseDown nat target        \<comment> \<open>\<open>mousedown\<close> on a note's header\<close>
  | ContentDblClick nat
  | ContentKeyDown nat key_event
  | ContentBlurTimeout nat
  | CloseClick nat
  | ColorDotClick nat string
  | ResizeMouseDown nat real real     \<comment> \<open>\<open>mousedown\<close> on a note's resize handle\<close>
  | MouseMove real real               \<comment> \<open>\<open>mousemove\<close> on the document\<close>
  | MouseUp                           \<comment> \<open>\<open>mouseup\<close> on the document\<close>
  | LoadClear                         \<comment> \<open>\<open>app.loadGraphData\<close>: \<open>clearAllNotes\<close>\<close>
  | LoadRestore "saved list"          \<comment> \<open>its timeout: \<open>deserializeNotes\<close>\<close>

definition live :: "nat \<Rightarrow> state \<Rightarrow> bool" where
  "live i s = (find (has_id i) (stickyNotes s) \<noteq> None)"

fun step :: "browser \<Rightarrow> event \<Rightarrow> state \<Rightarrow> state" where
  "step d (KeyDown e) s = globalKeyDownHandler d e s"
| "step d (KeyUp e) s = globalKeyUpHandler e s"
| "step d WindowBlur s = s\<lparr>isTKeyHeld := False\<rparr>"
| "step d (CanvasClick x y) s = (if isTKeyHeld s then createStickyNote d x y s else s)"
| "step d OverlayMouseDown s = deselectAllNotes s"
| "step d (NoteMouseDown i tg) s =
     (if \<not> live i s \<or> tg = Close_button \<or> tg = Color_dot then s else selectNote i s)"
| "step d (HeaderMouseDown i tg) s =
     (if \<not> live i s \<or> tg = Close_button \<or> tg = Color_dot \<or> tg = Colors_row then s
      else selectNote i (on_note i (\<lambda>n. n\<lparr>isDragging := True\<rparr>) s))"
| "step d (ContentDblClick i) s = on_note i startEditing s"
| "step d (ContentKeyDown i e) s = on_note i (content_onKeyDown e (textContent d i)) s"
| "step d (ContentBlurTimeout i) s = on_note i (content_onBlurTimeout (textContent d i)) s"
| "step d (CloseClick i) s = removeNote i s"
| "step d (ColorDotClick i k) s =
     (if k \<in> set palette_keys then on_note i (changeNoteColor k) s else s)"
| "step d (ResizeMouseDown i x y) s = on_note i (resize_onMouseDown x y) s"
| "step d (MouseMove x y) s =
     s\<lparr>stickyNotes := map (resize_onMouseMove (canvas_ds d) x y) (stickyNotes s)\<rparr>"
| "step d MouseUp s =
     s\<lparr>stickyNotes := map (\<lambda>n. resize_onMouseUp (drag_onMouseUp d n)) (stickyNotes s)\<rparr>"
| "step d LoadClear s = clearAllNotes s"
| "step d (LoadRestore recs) s = deserializeNotes d recs s"

text \<open>A run of events, each with the browser readings of its moment.\<close>

fun run :: "(browser \<times> event) list \<Rightarrow> state \<Rightarrow> state" where
  "run [] s = s"
| "run ((d, e) # es) s = run es (step d e s)"

section \<open>Properties stated in the specification\<close>

text \<open>The effect of the three escaping substitutions on one character of the source.\<close>

definition escaped :: "char \<Rightarrow> string" where
  "escaped c = (if c = CHR ''&'' then ''&amp;'' else if c = CHR ''<'' then ''&lt;''
                else if c = CHR ''>'' then ''&gt;'' else [c])"

text \<open>
  The matcher and \<open>replace\<close> once more, on characters that carry a mark of origin:
  \<open>Source\<close> for a character of the text given to \<open>parseMarkdown\<close>, \<open>Template\<close> for one
  that a replacement string brought in. The marks are carried along and never read.
\<close>

datatype origin = Source | Template

type_synonym mchar = "char \<times> origin"
type_synonym mcaptures = "(nat \<times> mchar list) list"
type_synonym mmstate = "mchar list \<times> mchar list \<times> mcaptures"

fun ms_marked :: "regex \<Rightarrow> mchar list \<Rightarrow> mchar list \<Rightarrow> mcaptures \<Rightarrow> mmstate list" where
  "ms_marked Eps bef aft cs = [(bef, aft, cs)]"
| "ms_marked (Ch c) bef [] cs = []"
| "ms_marked (Ch c) bef (x # xs) cs = (if cmatch c (fst x) then [(x # bef, xs, cs)] else [])"
| "ms_marked Bol bef aft cs =
     (case bef of [] \<Rightarrow> [(bef, aft, cs)]
      | p # _ \<Rightarrow> if is_line_terminator (fst p) then [(bef, aft, cs)] else [])"
| "ms_marked Eol bef aft cs =
     (case aft of [] \<Rightarrow> [(bef, aft, cs)]
      | n # _ \<Rightarrow> if is_line_terminator (fst n) then [(bef, aft, cs)] else [])"
| "ms_marked (Seq a b) bef aft cs =
     concat (map (\<lambda>(bef', aft', cs'). ms_marked b bef' aft' cs') (ms_marked a bef aft cs))"
| "ms_marked (Group n r) bef aft cs =
     map (\<lambda>(bef', aft', cs'). (bef', aft', (n, take (length aft - length aft') aft) # cs'))
       (ms_marked r bef aft cs)"
| "ms_marked (Opt r) bef aft cs = ms_marked r bef aft cs @ [(bef, aft, cs)]"
| "ms_marked (Star g r) bef aft cs =
     (let more = concat (map (\<lambda>(bef', aft', cs').
                    if length aft' < length aft then ms_marked (Star g r) bef' aft' cs' else [])
                  (ms_marked r bef aft cs))
      in if g then more @ [(bef, aft, cs)] else (bef, aft, cs) # more)"

definition exec_marked :: "regex \<Rightarrow> mchar list \<Rightarrow> mchar list \<Rightarrow> mmstate option" where
  "exec_marked re bef aft = (case ms_marked re bef aft [] of [] \<Rightarrow> None | m # _ \<Rightarrow> Some m)"

fun expand_marked :: "titem list \<Rightarrow> mcaptures \<Rightarrow> mchar list" where
  "expand_marked [] cs = []"
| "expand_marked (TLit s # ts) cs = map (\<lambda>c. (c, Template)) s @ expand_marked ts cs"
| "expand_marked (TGrp n # ts) cs =
     (case map_of cs n of Some t \<Rightarrow> t | None \<Rightarrow> []) @ expand_marked ts cs"

fun replace_from_marked :: "regex \<Rightarrow> titem list \<Rightarrow> mchar list \<Rightarrow> mchar list \<Rightarrow> mchar list" where
  "replace_from_marked re t bef aft =
     (case exec_marked re bef aft of
        None \<Rightarrow> (case aft of [] \<Rightarrow> [] | c # rest \<Rightarrow> c # replace_from_marked re t (c # bef) rest)
      | Some (bef', aft', cs) \<Rightarrow>
          if length aft' < length aft
          then expand_marked t cs @ replace_from_marked re t bef' aft'
          else expand_marked t cs @
            (case aft of [] \<Rightarrow> [] | c # rest \<Rightarrow> c # replace_from_marked re t (c # bef) rest))"

definition replace_marked :: "regex \<Rightarrow> titem list \<Rightarrow> mchar list \<Rightarrow> mchar list" where
  "replace_marked re t s = replace_from_marked re t [] s"

definition apply_rules_marked :: "(regex \<times> titem list) list \<Rightarrow> mchar list \<Rightarrow> mchar list" where
  "apply_rules_marked rules s = foldl (\<lambda>html (re, t). replace_marked re t html) s rules"

definition render_marked :: "string \<Rightarrow> mchar list" where
  "render_marked s =
     apply_rules_marked (escape_rules @ markup_rules @ list_rules @ cleanup_rules)
       (map (\<lambda>c. (c, Source)) s)"

definition unmark_state :: "mmstate \<Rightarrow> mstate" where
  "unmark_state st = (case st of (bef, aft, cs) \<Rightarrow>
      (map fst bef, map fst aft, map (\<lambda>(n, t). (n, map fst t)) cs))"

text \<open>All captured texts are made of characters of a given set.\<close>

definition caps_in :: "mchar set \<Rightarrow> mcaptures \<Rightarrow> bool" where
  "caps_in A cs = (\<forall>(n, t) \<in> set cs. set t \<subseteq> A)"

text \<open>A record passes the test of \<open>deserializeNotes\<close> when its \<open>x\<close> and \<open>y\<close> are numbers.\<close>

definition valid_xy :: "saved \<Rightarrow> bool" where
  "valid_xy r = (is_number (sv_x r) \<and> is_number (sv_y r))"

text \<open>
  A note restores a record: it has the record's position and, field by field, the
  record's value or the default where the value is missing or falsy.
\<close>

definition restores :: "browser \<Rightarrow> saved \<Rightarrow> noteData \<Rightarrow> bool" where
  "restores d r n =
     (sv_x r = JNum (canvasX n) \<and> sv_y r = JNum (canvasY n)
      \<and> width n = opt_num_or (sv_width r) DEFAULT_WIDTH
      \<and> height n = opt_num_or (sv_height r) DEFAULT_HEIGHT
      \<and> note_text n = opt_str_or (sv_text r) ''New note...''
      \<and> color n = opt_str_or (sv_color r) DEFAULT_COLOR
      \<and> createdAt n = opt_num_or (sv_createdAt r) (now d))"

text \<open>
  \<open>serialize()\<close>, then \<open>clearAll()\<close>, then \<open>deserialize()\<close> of the serialized records;
  \<open>d1\<close> and \<open>d2\<close> are the browser readings at the time of saving and of loading.
\<close>

definition save_and_reload :: "browser \<Rightarrow> browser \<Rightarrow> state \<Rightarrow> state" where
  "save_and_reload d1 d2 s = deserializeNotes d2 (serializeNotes d1 s) (clearAllNotes s)"

text \<open>
  What a restored note shares with the original: the position, and each other field
  whose value in the original is truthy.
\<close>

definition same_content :: "noteData \<Rightarrow> noteData \<Rightarrow> bool" where
  "same_content n n' =
     (canvasX n' = canvasX n \<and> canvasY n' = canvasY n
      \<and> (width n \<noteq> 0 \<longrightarrow> width n' = width n)
      \<and> (height n \<noteq> 0 \<longrightarrow> height n' = height n)
      \<and> (note_text n \<noteq> [] \<longrightarrow> note_text n' = note_text n)
      \<and> (color n \<noteq> [] \<longrightarrow> color n' = color n)
      \<and> (createdAt n \<noteq> 0 \<longrightarrow> createdAt n' = createdAt n))"

text \<open>
  An invariant on the size and colour of every note and of the clipboard, the functions
  on notes that leave identity, size and colour alone, and the records whose restored
  size and colour satisfy the invariant.
\<close>

definition notes_ok :: "(real \<Rightarrow> real \<Rightarrow> string \<Rightarrow> bool) \<Rightarrow> state \<Rightarrow> bool" where
  "notes_ok Q s =
     ((\<forall>n \<in> set (stickyNotes s). Q (width n) (height n) (color n))
      \<and> (\<forall>c. clipboardNote s = Some c \<longrightarrow> Q (clip_width c) (clip_height c) (clip_color c)))"

definition keeps_data :: "(noteData \<Rightarrow> noteData) \<Rightarrow> bool" where
  "keeps_data f = (\<forall>n. note_id (f n) = note_id n \<and> width (f n) = width n
                      \<and> height (f n) = height n \<and> color (f n) = color n)"

definition saved_ok :: "(real \<Rightarrow> real \<Rightarrow> string \<Rightarrow> bool) \<Rightarrow> saved \<Rightarrow> bool" where
  "saved_ok Q r = Q (opt_num_or (sv_width r) DEFAULT_WIDTH) (opt_num_or (sv_height r) DEFAULT_HEIGHT)
                    (opt_str_or (sv_color r) DEFAULT_COLOR)"

text \<open>The size invariant of the data model, on the notes and on the clipboard.\<close>

definition sizes_ok :: "state \<Rightarrow> bool" where
  "sizes_ok s =
     ((\<forall>n \<in> set (stickyNotes s). MIN_WIDTH \<le> width n \<and> MIN_HEIGHT \<le> height n)
      \<and> (\<forall>c. clipboardNote s = Some c \<longrightarrow> MIN_WIDTH \<le> clip_width c \<and> MIN_HEIGHT \<le> clip_height c))"

text \<open>A record whose size, where present and not zero, respects the minimum.\<close>

definition saved_size_ok :: "saved \<Rightarrow> bool" where
  "saved_size_ok r =
     ((case sv_width r of None \<Rightarrow> True | Some w \<Rightarrow> w = 0 \<or> MIN_WIDTH \<le> w)
      \<and> (case sv_height r of None \<Rightarrow> True | Some h \<Rightarrow> h = 0 \<or> MIN_HEIGHT \<le> h))"

definition loads_sizes_ok :: "event \<Rightarrow> bool" where
  "loads_sizes_ok e =
     (case e of LoadRestore recs \<Rightarrow> \<forall>r \<in> set recs. valid_xy r \<longrightarrow> saved_size_ok r | _ \<Rightarrow> True)"




text \<open>
  The selection invariant: ids are unique and at most the counter, the selected id is
  the id of a note of the store, and the class \<open>selected\<close> marks exactly that note.
\<close>

definition selection_ok :: "state \<Rightarrow> bool" where
  "selection_ok s =
     (distinct (map note_id (stickyNotes s))
      \<and> (\<forall>n \<in> set (stickyNotes s). note_id n \<le> noteIdCounter s)
      \<and> (\<forall>i. selectedNoteId s = Some i \<longrightarrow> live i s)
      \<and> (\<forall>n \<in> set (stickyNotes s). selected (element n) = (selectedNoteId s = Some (note_id n))))"

definition keeps_selection :: "(noteData \<Rightarrow> noteData) \<Rightarrow> bool" where
  "keeps_selection f =
     (\<forall>n. note_id (f n) = note_id n \<and> selected (element (f n)) = selected (element n))"

section \<open>Example inputs\<close>

definition example_browser :: browser where
  "example_browser =
     \<lparr>canvas_ds = \<lparr>scale = 1, offset0 = 0, offset1 = 0\<rparr>, now = 1705512345678,
      isTyping = False, rect_width = 800, rect_height = 600,
      textContent = (\<lambda>i. ''edited''), offsetLeft = (\<lambda>i. 0), offsetTop = (\<lambda>i. 0)\<rparr>"

definition key_T :: key_event where
  "key_T = \<lparr>key = ''t'', ctrlKey = False, metaKey = False, shiftKey = False\<rparr>"

text \<open>One note, made by holding T and clicking; the same note while it is edited.\<close>

definition one_note :: state where
  "one_note = createStickyNote example_browser 100 100 initial_state"

definition one_note_editing :: state where
  "one_note_editing = step example_browser (ContentDblClick 1) one_note"

text \<open>Two notes made one after the other.\<close>

definition two_notes :: state where
  "two_notes = run [(example_browser, KeyDown key_T),
                    (example_browser, CanvasClick 100 100),
                    (example_browser, CanvasClick 400 300)] initial_state"

text \<open>A record with a size below the minimum, and one with a colour outside the palette.\<close>

definition small_record :: saved where
  "small_record = \<lparr>sv_id = Some 1, sv_x = JNum 0, sv_y = JNum 0, sv_width = Some 50,
                    sv_height = Some 30, sv_text = Some ''small'', sv_color = Some ''yellow'',
                    sv_createdAt = Some 1705512345678\<rparr>"


text \<open>
  A note is made and its resize handle is dragged far up and to the left; a note is
  made and two dots are clicked, the second of which no colour picker has.
\<close>

definition shrink_gesture :: "(browser \<times> event) list" where
  "shrink_gesture =
     [(example_browser, KeyDown key_T),
      (example_browser, CanvasClick 100 100),
      (example_browser, ResizeMouseDown 1 300 200),
      (example_browser, MouseMove (- 5000) (- 5000)),
      (example_browser, MouseUp)]"


section \<open>Verification\<close>

declare replace_from.simps [simp del]

declare replace_from_marked.simps [simp del]

subsection \<open>The coordinate transform\<close>

text \<open>
  C3. For all coordinates and every transform with strictly positive scale, converting
  canvas coordinates to the screen and back gives the coordinates again, and so does
  the other direction: \<open>screenToCanvas\<close> is the inverse of \<open>canvasToScreen\<close>, which
  computes \<open>(canvas + offset) * scale\<close>. Numbers are reals, so the equality is exact.
\<close>

theorem screenToCanvas_canvasToScreen:
  assumes "0 < scale t"
  shows "canvasToScreen t x y = ((x + offset0 t) * scale t, (y + offset1 t) * scale t)
       \<and> screenToCanvas t (fst (canvasToScreen t x y)) (snd (canvasToScreen t x y)) = (x, y)
       \<and> canvasToScreen t (fst (screenToCanvas t x y)) (snd (screenToCanvas t x y)) = (x, y)"
  using assms by (simp add: screenToCanvas_def canvasToScreen_def field_simps)

text \<open>C3 at scale 2 and offset (10, -5): the point (100, 100) goes to (220, 190) and back.\<close>

theorem screenToCanvas_canvasToScreen_witness:
  "0 < scale \<lparr>scale = 2, offset0 = 10, offset1 = - 5\<rparr>
   \<and> canvasToScreen \<lparr>scale = 2, offset0 = 10, offset1 = - 5\<rparr> 100 100 = (220, 190)
   \<and> screenToCanvas \<lparr>scale = 2, offset0 = 10, offset1 = - 5\<rparr> 220 190 = (100, 100)"
proof -
  have pos: "0 < scale \<lparr>scale = 2, offset0 = 10, offset1 = - 5\<rparr>"
    by simp
  note w = screenToCanvas_canvasToScreen [OF pos, of 100 100]
  have a: "canvasToScreen \<lparr>scale = 2, offset0 = 10, offset1 = - 5\<rparr> 100 100 = (220, 190)"
    using w by simp
  have "screenToCanvas \<lparr>scale = 2, offset0 = 10, offset1 = - 5\<rparr> 220 190 = (100, 100)"
    using conjunct1 [OF conjunct2 [OF w]] unfolding a by simp
  with a pos show ?thesis by simp
qed

subsection \<open>Markdown\<close>

lemma exec_char:
  "exec (Seq (Ch (CChar c)) Eps) bef aft =
     (case aft of [] \<Rightarrow> None | x # xs \<Rightarrow> if x = c then Some (x # bef, xs, []) else None)"
  by (cases aft) (simp_all add: exec_def)

lemma replace_from_char:
  "replace_from (Seq (Ch (CChar c)) Eps) [TLit t] bef aft =
     concat (map (\<lambda>x. if x = c then t else [x]) aft)"
proof (induction aft arbitrary: bef)
  case Nil
  show ?case by (subst replace_from.simps) (simp add: exec_char)
next
  case (Cons a aft)
  show ?case by (subst replace_from.simps) (simp add: exec_char Cons.IH)
qed

lemma replace_char:
  "replace (Seq (Ch (CChar c)) Eps) [TLit t] s = concat (map (\<lambda>x. if x = c then t else [x]) s)"
  by (simp add: replace_def replace_from_char)

lemma escape_html_chars: "escape_html s = concat (map escaped s)"
proof -
  have "escape_html s =
      concat (map (\<lambda>x. if x = CHR ''>'' then ''&gt;'' else [x])
        (concat (map (\<lambda>x. if x = CHR ''<'' then ''&lt;'' else [x])
          (concat (map (\<lambda>x. if x = CHR ''&'' then ''&amp;'' else [x]) s)))))"
    by (simp add: escape_html_def apply_rules_def escape_rules_def replace_char)
  also have "\<dots> = concat (map escaped s)"
    by (induction s) (simp_all add: escaped_def)
  finally show ?thesis .
qed

lemma escape_html_no_angle:
  "CHR ''<'' \<notin> set (escape_html s)" "CHR ''>'' \<notin> set (escape_html s)"
  by (auto simp: escape_html_chars escaped_def split: if_splits)

lemma unmark_state_simp [simp]:
  "unmark_state (bef, aft, cs) = (map fst bef, map fst aft, map (\<lambda>(n, t). (n, map fst t)) cs)"
  by (simp add: unmark_state_def)

lemma ms_marked_sim:
  "map unmark_state (ms_marked re bef aft cs)
     = ms re (map fst bef) (map fst aft) (map (\<lambda>(n, t). (n, map fst t)) cs)"
proof (induction re bef aft cs rule: ms_marked.induct)
  case (1 bef aft cs)
  show ?case by simp
next
  case (2 c bef cs)
  show ?case by simp
next
  case (3 c bef x xs cs)
  show ?case by simp
next
  case (4 bef aft cs)
  show ?case by (cases bef) simp_all
next
  case (5 bef aft cs)
  show ?case by (cases aft) simp_all
next
  case (6 a b bef aft cs)
  have "map unmark_state (ms_marked (Seq a b) bef aft cs)
      = concat (map (\<lambda>st. map unmark_state (case st of (bef', aft', cs') \<Rightarrow> ms_marked b bef' aft' cs'))
                 (ms_marked a bef aft cs))"
    by (simp add: map_concat comp_def)
  also have "\<dots> = concat (map (\<lambda>st. case unmark_state st of (bef', aft', cs') \<Rightarrow> ms b bef' aft' cs')
                 (ms_marked a bef aft cs))"
    by (rule arg_cong [where f = concat], rule map_cong [OF refl])
       (auto simp: "6.IH"(2))
  also have "\<dots> = concat (map (\<lambda>(bef', aft', cs'). ms b bef' aft' cs')
                 (map unmark_state (ms_marked a bef aft cs)))"
    by (simp add: comp_def)
  finally show ?case
    by (simp add: "6.IH"(1))
next
  case (7 n r bef aft cs)
  have "map unmark_state (ms_marked (Group n r) bef aft cs)
      = map (\<lambda>(bef', aft', cs'). (bef', aft',
               (n, take (length (map fst aft) - length aft') (map fst aft)) # cs'))
          (map unmark_state (ms_marked r bef aft cs))"
    by (auto simp: comp_def take_map)
  then show ?case
    by (simp add: "7.IH")
next
  case (8 r bef aft cs)
  show ?case by (simp add: "8.IH")
next
  case (9 g r bef aft cs)
  let ?more = "concat (map (\<lambda>(bef', aft', cs').
                    if length aft' < length aft then ms_marked (Star g r) bef' aft' cs' else [])
                  (ms_marked r bef aft cs))"
  have "map unmark_state ?more
      = concat (map (\<lambda>st. map unmark_state (case st of (bef', aft', cs') \<Rightarrow>
                    if length aft' < length aft then ms_marked (Star g r) bef' aft' cs' else []))
                 (ms_marked r bef aft cs))"
    by (simp add: map_concat comp_def del: ms.simps ms_marked.simps)
  also have "\<dots> = concat (map (\<lambda>st. case unmark_state st of (bef', aft', cs') \<Rightarrow>
                    if length aft' < length (map fst aft) then ms (Star g r) bef' aft' cs' else [])
                 (ms_marked r bef aft cs))"
    by (rule arg_cong [where f = concat], rule map_cong [OF refl])
       (auto simp: "9.IH"(2) simp del: ms.simps ms_marked.simps)
  also have "\<dots> = concat (map (\<lambda>(bef', aft', cs').
                    if length aft' < length (map fst aft) then ms (Star g r) bef' aft' cs' else [])
                 (map unmark_state (ms_marked r bef aft cs)))"
    by (simp add: comp_def del: ms.simps ms_marked.simps)
  finally have "map unmark_state ?more
      = concat (map (\<lambda>(bef', aft', cs').
                    if length aft' < length (map fst aft) then ms (Star g r) bef' aft' cs' else [])
                 (ms r (map fst bef) (map fst aft) (map (\<lambda>(n, t). (n, map fst t)) cs)))"
    by (simp add: "9.IH"(1) del: ms.simps ms_marked.simps)
  then show ?case
    by (subst ms_marked.simps(9), subst ms.simps(9))
       (simp add: Let_def del: ms.simps ms_marked.simps)
qed

lemma exec_marked_sim:
  "map_option unmark_state (exec_marked re bef aft) = exec re (map fst bef) (map fst aft)"
proof -
  have "ms re (map fst bef) (map fst aft) [] = map unmark_state (ms_marked re bef aft [])"
    using ms_marked_sim [of re bef aft "[]"] by simp
  then show ?thesis
    by (cases "ms_marked re bef aft []") (simp_all add: exec_marked_def exec_def)
qed

lemma map_of_unmark:
  "map_of (map (\<lambda>(n, t). (n, map fst t)) cs) n = map_option (map fst) (map_of cs n)"
  by (induction cs) auto

lemma expand_marked_sim:
  "map fst (expand_marked t cs) = expand t (map (\<lambda>(n, t). (n, map fst t)) cs)"
  by (induction t cs rule: expand_marked.induct)
     (auto simp: map_of_unmark comp_def split: option.splits)

lemma replace_from_marked_sim:
  "map fst (replace_from_marked re t bef aft) = replace_from re t (map fst bef) (map fst aft)"
proof (induction re t bef aft rule: replace_from_marked.induct)
  case (1 re t bef aft)
  show ?case
  proof (cases "exec_marked re bef aft")
    case None
    then have e: "exec re (map fst bef) (map fst aft) = None"
      using exec_marked_sim [of re bef aft] by simp
    show ?thesis
    proof (cases aft)
      case Nil
      then show ?thesis
        using None e
        by (subst replace_from_marked.simps, subst replace_from.simps) simp
    next
      case (Cons c rest)
      then show ?thesis
        using None e "1.IH"(1) [OF None Cons]
        by (subst replace_from_marked.simps, subst replace_from.simps) simp
    qed
  next
    case (Some st)
    obtain bef' aft' cs where st: "st = (bef', aft', cs)"
      by (cases st)
    have e: "exec re (map fst bef) (map fst aft)
           = Some (map fst bef', map fst aft', map (\<lambda>(n, t). (n, map fst t)) cs)"
      using exec_marked_sim [of re bef aft] Some st by simp
    show ?thesis
    proof (cases "length aft' < length aft")
      case True
      then show ?thesis
        using Some st e "1.IH"(2) [OF Some st [symmetric] refl True]
        by (subst replace_from_marked.simps, subst replace_from.simps)
           (simp add: expand_marked_sim)
    next
      case False
      show ?thesis
      proof (cases aft)
        case Nil
        then show ?thesis
          using Some st e False
          by (subst replace_from_marked.simps, subst replace_from.simps)
             (simp add: expand_marked_sim)
      next
        case (Cons c rest)
        then show ?thesis
          using Some st e False "1.IH"(3) [OF Some st [symmetric] refl False Cons]
          by (subst replace_from_marked.simps, subst replace_from.simps)
             (simp add: expand_marked_sim)
      qed
    qed
  qed
qed

lemma replace_marked_sim: "map fst (replace_marked re t s) = replace re t (map fst s)"
  by (simp add: replace_marked_def replace_def replace_from_marked_sim)

lemma apply_rules_marked_sim:
  "map fst (apply_rules_marked rules s) = apply_rules rules (map fst s)"
  unfolding apply_rules_marked_def apply_rules_def
  by (induction rules arbitrary: s) (auto simp: replace_marked_sim)

lemma apply_rules_append:
  "apply_rules (xs @ ys) s = apply_rules ys (apply_rules xs s)"
  by (simp add: apply_rules_def)

lemma render_marked_sim: "map fst (render_marked s) = render s"
  by (simp add: render_marked_def apply_rules_marked_sim render_def escape_html_def
        apply_rules_append comp_def)

lemma caps_in_simps [simp]:
  "caps_in A []" "caps_in A ((n, t) # cs) = (set t \<subseteq> A \<and> caps_in A cs)"
  by (simp_all add: caps_in_def)

lemma caps_in_map_of: "caps_in A cs \<Longrightarrow> map_of cs n = Some t \<Longrightarrow> set t \<subseteq> A"
  by (auto simp: caps_in_def dest: map_of_SomeD)

lemma ms_marked_within:
  "set aft \<subseteq> A \<Longrightarrow> caps_in A cs \<Longrightarrow>
   \<forall>(bef', aft', cs') \<in> set (ms_marked re bef aft cs). set aft' \<subseteq> A \<and> caps_in A cs'"
proof (induction re bef aft cs rule: ms_marked.induct)
  case (1 bef aft cs)
  then show ?case by simp
next
  case (2 c bef cs)
  then show ?case by simp
next
  case (3 c bef x xs cs)
  then show ?case by simp
next
  case (4 bef aft cs)
  then show ?case by (cases bef) simp_all
next
  case (5 bef aft cs)
  then show ?case by (cases aft) simp_all
next
  case (6 a b bef aft cs)
  show ?case
  proof (clarsimp)
    fix bef' aft' cs' bef1 aft1 cs1
    assume a: "(bef1, aft1, cs1) \<in> set (ms_marked a bef aft cs)"
      and b: "(bef', aft', cs') \<in> set (ms_marked b bef1 aft1 cs1)"
    have "set aft1 \<subseteq> A \<and> caps_in A cs1"
      using "6.IH"(1) [OF "6.prems"] a by blast
    then show "set aft' \<subseteq> A \<and> caps_in A cs'"
      using "6.IH"(2) [OF a refl refl] b by blast
  qed
next
  case (7 n r bef aft cs)
  have "set (take k aft) \<subseteq> A" for k
    using "7.prems"(1) set_take_subset [of k aft] by blast
  then show ?case
    using "7.IH" [OF "7.prems"] by auto
next
  case (8 r bef aft cs)
  then show ?case by auto
next
  case (9 g r bef aft cs)
  have one: "\<forall>(bef', aft', cs') \<in> set (ms_marked r bef aft cs). set aft' \<subseteq> A \<and> caps_in A cs'"
    using "9.IH"(1) [OF "9.prems"] .
  have more: "set aft' \<subseteq> A \<and> caps_in A cs'"
    if a: "(bef1, aft1, cs1) \<in> set (ms_marked r bef aft cs)"
      and l: "length aft1 < length aft"
      and b: "(bef', aft', cs') \<in> set (ms_marked (Star g r) bef1 aft1 cs1)"
    for bef1 aft1 cs1 bef' aft' cs'
  proof -
    have "set aft1 \<subseteq> A \<and> caps_in A cs1"
      using one a by blast
    then show ?thesis
      using "9.IH"(2) [OF a refl refl l] b by blast
  qed
  let ?more = "concat (map (\<lambda>(bef', aft', cs').
                    if length aft' < length aft then ms_marked (Star g r) bef' aft' cs' else [])
                  (ms_marked r bef aft cs))"
  have all_more: "set aft' \<subseteq> A \<and> caps_in A cs'" if "(bef', aft', cs') \<in> set ?more"
    for bef' aft' cs'
  proof -
    from that obtain bef1 aft1 cs1 where
      a: "(bef1, aft1, cs1) \<in> set (ms_marked r bef aft cs)"
      and b: "(bef', aft', cs') \<in> set (if length aft1 < length aft
                 then ms_marked (Star g r) bef1 aft1 cs1 else [])"
      by (auto simp del: ms_marked.simps)
    then have "length aft1 < length aft"
      and "(bef', aft', cs') \<in> set (ms_marked (Star g r) bef1 aft1 cs1)"
      by (auto split: if_splits simp del: ms_marked.simps)
    then show ?thesis
      using more [OF a] by blast
  qed
  define more_list where "more_list = ?more"
  have eq: "ms_marked (Star g r) bef aft cs
          = (if g then more_list @ [(bef, aft, cs)] else (bef, aft, cs) # more_list)"
    unfolding more_list_def
    by (subst ms_marked.simps(9)) (simp add: Let_def del: ms_marked.simps)
  have "\<forall>(bef', aft', cs') \<in> set more_list. set aft' \<subseteq> A \<and> caps_in A cs'"
    using all_more unfolding more_list_def by blast
  then show ?case
    unfolding eq using "9.prems" by auto
qed

lemma exec_marked_within:
  "exec_marked re bef aft = Some (bef', aft', cs) \<Longrightarrow> caps_in (set aft) cs"
  using ms_marked_within [of aft "set aft" "[]" re bef]
  by (auto simp: exec_marked_def caps_in_def split: list.splits)

lemma expand_marked_origin:
  "caps_in A cs \<Longrightarrow> \<forall>x \<in> set (expand_marked t cs). snd x = Template \<or> x \<in> A"
proof (induction t cs rule: expand_marked.induct)
  case (1 cs)
  show ?case by simp
next
  case (2 s ts cs)
  then show ?case by auto
next
  case (3 n ts cs)
  show ?case
  proof (cases "map_of cs n")
    case None
    then show ?thesis using 3 by simp
  next
    case (Some t)
    then have "set t \<subseteq> A"
      using caps_in_map_of [OF "3.prems"] by blast
    then show ?thesis using 3 Some by auto
  qed
qed

lemma replace_from_marked_origin:
  "\<forall>x \<in> set (replace_from_marked re t bef aft). snd x = Template \<or> x \<in> set aft"
proof (induction re t bef aft rule: replace_from_marked.induct)
  case (1 re t bef aft)
  show ?case
  proof (cases "exec_marked re bef aft")
    case None
    show ?thesis
    proof (cases aft)
      case Nil
      then show ?thesis
        using None by (subst replace_from_marked.simps) simp
    next
      case (Cons c rest)
      then show ?thesis
        using None "1.IH"(1) [OF None Cons]
        by (subst replace_from_marked.simps) auto
    qed
  next
    case (Some st)
    obtain bef' aft' cs where st: "st = (bef', aft', cs)"
      by (cases st)
    have ex: "\<forall>x \<in> set (expand_marked t cs). snd x = Template \<or> x \<in> set aft"
      using exec_marked_within [of re bef aft bef' aft' cs] Some st
      by (simp add: expand_marked_origin)
    have suffix: "set aft' \<subseteq> set aft"
      using ms_marked_within [of aft "set aft" "[]" re bef] Some st
      by (auto simp: exec_marked_def split: list.splits)
    show ?thesis
    proof (cases "length aft' < length aft")
      case True
      then show ?thesis
        using Some st ex suffix "1.IH"(2) [OF Some st [symmetric] refl True]
        by (subst replace_from_marked.simps) auto
    next
      case False
      show ?thesis
      proof (cases aft)
        case Nil
        then show ?thesis
          using Some st ex False by (subst replace_from_marked.simps) auto
      next
        case (Cons c rest)
        then show ?thesis
          using Some st ex False "1.IH"(3) [OF Some st [symmetric] refl False Cons]
          by (subst replace_from_marked.simps) auto
      qed
    qed
  qed
qed

lemma apply_rules_marked_origin:
  "\<forall>x \<in> set (apply_rules_marked rules s). snd x = Template \<or> x \<in> set s"
proof (induction rules arbitrary: s)
  case Nil
  show ?case by (simp add: apply_rules_marked_def)
next
  case (Cons r rules)
  obtain re t where r: "r = (re, t)" by (cases r)
  have step: "apply_rules_marked (r # rules) s = apply_rules_marked rules (replace_marked re t s)"
    by (simp add: apply_rules_marked_def r)
  show ?case
    unfolding step
    using Cons.IH [of "replace_marked re t s"] replace_from_marked_origin [of re t "[]" s]
    by (auto simp: replace_marked_def)
qed

lemma exec_marked_char:
  "exec_marked (Seq (Ch (CChar c)) Eps) bef aft =
     (case aft of [] \<Rightarrow> None | x # xs \<Rightarrow> if fst x = c then Some (x # bef, xs, []) else None)"
  by (cases aft) (simp_all add: exec_marked_def)

lemma replace_from_marked_char:
  "replace_from_marked (Seq (Ch (CChar c)) Eps) [TLit t] bef aft =
     concat (map (\<lambda>x. if fst x = c then map (\<lambda>c. (c, Template)) t else [x]) aft)"
proof (induction aft arbitrary: bef)
  case Nil
  show ?case by (subst replace_from_marked.simps) (simp add: exec_marked_char)
next
  case (Cons a aft)
  show ?case by (subst replace_from_marked.simps) (simp add: exec_marked_char Cons.IH)
qed

lemma escape_marked_source:
  "\<forall>x \<in> set (apply_rules_marked escape_rules (map (\<lambda>c. (c, Source)) s)).
     snd x = Source \<longrightarrow> fst x \<noteq> CHR ''&'' \<and> fst x \<noteq> CHR ''<'' \<and> fst x \<noteq> CHR ''>''"
  by (auto simp: apply_rules_marked_def escape_rules_def replace_marked_def
        replace_from_marked_char split: if_splits)

lemma apply_rules_marked_append:
  "apply_rules_marked (xs @ ys) s = apply_rules_marked ys (apply_rules_marked xs s)"
  by (simp add: apply_rules_marked_def)

lemma render_marked_source:
  "\<forall>x \<in> set (render_marked s).
     snd x = Source \<longrightarrow> fst x \<noteq> CHR ''&'' \<and> fst x \<noteq> CHR ''<'' \<and> fst x \<noteq> CHR ''>''"
  unfolding render_marked_def apply_rules_marked_append
  using apply_rules_marked_origin [of "markup_rules @ list_rules @ cleanup_rules"
          "apply_rules_marked escape_rules (map (\<lambda>c. (c, Source)) s)"]
        escape_marked_source [of s]
  by (auto simp: apply_rules_marked_append)

lemma render_marked_example:
  "render_marked ''<b>'' =
     [(CHR ''&'', Template), (CHR ''l'', Template), (CHR ''t'', Template), (CHR '';'', Template),
      (CHR ''b'', Source),
      (CHR ''&'', Template), (CHR ''g'', Template), (CHR ''t'', Template), (CHR '';'', Template)]"
  by code_simp

text \<open>
  C7. Escaping comes before every substitution that injects a tag: the three escaping
  substitutions turn each character of the source into itself or, for \<open>&\<close>, \<open><\<close> and
  \<open>>\<close>, into its entity; their result holds no \<open><\<close> and no \<open>>\<close>, and it is this
  result that all the later substitutions work on. So for every text, no \<open>&\<close>, \<open><\<close> or
  \<open>>\<close> of the rendered output is a character of the source: followed through the whole
  chain with marks of origin, every such character of the output comes from a
  replacement string. In particular the rendering of \<open><script>\<close> is \<open>&lt;script&gt;\<close>.
\<close>

theorem parseMarkdown_escapes_first:
  "escape_html s = concat (map escaped s)
   \<and> CHR ''<'' \<notin> set (escape_html s) \<and> CHR ''>'' \<notin> set (escape_html s)
   \<and> parseMarkdown s =
        (if s = [] then []
         else apply_rules cleanup_rules (apply_rules list_rules
                (apply_rules markup_rules (escape_html s))))
   \<and> map fst (render_marked s) = render s
   \<and> (\<forall>x \<in> set (render_marked s).
         snd x = Source \<longrightarrow> fst x \<noteq> CHR ''&'' \<and> fst x \<noteq> CHR ''<'' \<and> fst x \<noteq> CHR ''>'')
   \<and> parseMarkdown ''<script>'' = ''&lt;script&gt;''
   \<and> parseMarkdown ''<script>alert(1)</script>'' = ''&lt;script&gt;alert(1)&lt;/script&gt;''"
proof -
  have "parseMarkdown ''<script>'' = ''&lt;script&gt;''"
    by code_simp
  moreover have "parseMarkdown ''<script>alert(1)</script>'' = ''&lt;script&gt;alert(1)&lt;/script&gt;''"
    by code_simp
  ultimately show ?thesis
    using render_marked_source [of s]
    by (simp add: escape_html_chars [symmetric] escape_html_no_angle parseMarkdown_def render_def
          render_marked_sim [unfolded render_def])
qed

text \<open>
  C7 on the text \<open><b>\<close>: of the nine characters of the output only the \<open>b\<close> is a
  character of the source.
\<close>

theorem parseMarkdown_escapes_first_witness:
  "map fst (render_marked ''<b>'') = ''&lt;b&gt;''
   \<and> map snd (render_marked ''<b>'')
        = [Template, Template, Template, Template, Source, Template, Template, Template, Template]
   \<and> parseMarkdown ''<b>'' = ''&lt;b&gt;''"
proof -
  note w = parseMarkdown_escapes_first [of "''<b>''"]
  have "map fst (render_marked ''<b>'') = render ''<b>''"
    using w by blast
  moreover have "parseMarkdown ''<b>'' = render ''<b>''"
    by (simp add: parseMarkdown_def)
  moreover have "map fst (render_marked ''<b>'') = ''&lt;b&gt;''"
    by (simp add: render_marked_example)
  ultimately show ?thesis
    by (simp add: render_marked_example)
qed

text \<open>
  C6. Markdown delimiters inside an inline code span are to stay as they are. The code
  does not keep them so. The code substitution itself leaves the content alone: after
  the substitutions up to and including it, \<open>`**a**`\<close> is \<open><code>**a**</code>\<close>. But
  the bold, italic and strikethrough substitutions that follow run over the whole
  string, the content of the code element included, and rewrite it: the rendering of
  \<open>`**a**`\<close> is \<open><code><strong>a</strong></code>\<close>, not the code element with the
  literal \<open>**a**\<close>. A code span without delimiters, such as \<open>`a`\<close>, is rendered
  literally.
\<close>

theorem parseMarkdown_code_span:
  "apply_rules (take 6 markup_rules) (escape_html ''`**a**`'') = ''<code>**a**</code>''
   \<and> parseMarkdown ''`**a**`'' = ''<code><strong>a</strong></code>''
   \<and> parseMarkdown ''`**a**`'' \<noteq> ''<code>**a**</code>''
   \<and> parseMarkdown ''`*a*`'' = ''<code><em>a</em></code>''
   \<and> parseMarkdown ''`__a__`'' = ''<code><strong>a</strong></code>''
   \<and> parseMarkdown ''`_a_`'' = ''<code><em>a</em></code>''
   \<and> parseMarkdown ''`~~a~~`'' = ''<code><del>a</del></code>''
   \<and> parseMarkdown ''`a`'' = ''<code>a</code>''"
  by code_simp

text \<open>
  C8. Two consecutive lines with the bullet \<open>-\<close> render to one list holding two items,
  with no line break left between them. Two consecutive lines with the bullet \<open>*\<close>, the
  other bullet of the unordered-list substitution, do not render to a list: the italic
  substitution, which runs earlier, takes the two bullets for a pair of delimiters.
\<close>

theorem parseMarkdown_bullet_lines:
  "parseMarkdown ''- a\<newline>- b'' = ''<ul><li>a</li><li>b</li></ul>''
   \<and> parseMarkdown ''* a'' = ''<ul><li>a</li></ul>''
   \<and> parseMarkdown ''* a\<newline>* b'' = ''<em> a<br></em> b''"
  by code_simp

subsection \<open>Editing\<close>

lemma renderNoteContent_fields [simp]:
  "note_id (renderNoteContent n) = note_id n"
  "canvasX (renderNoteContent n) = canvasX n"
  "canvasY (renderNoteContent n) = canvasY n"
  "width (renderNoteContent n) = width n"
  "height (renderNoteContent n) = height n"
  "note_text (renderNoteContent n) = note_text n"
  "color (renderNoteContent n) = color n"
  "createdAt (renderNoteContent n) = createdAt n"
  "isEditing (renderNoteContent n) = isEditing n"
  "isDragging (renderNoteContent n) = isDragging n"
  "resizing (renderNoteContent n) = resizing n"
  "selected (element (renderNoteContent n)) = selected (element n)"
  by (simp_all add: renderNoteContent_def)

lemma note_id_stopEditing [simp]: "note_id (stopEditing v n) = note_id n"
  by (simp add: stopEditing_def renderNoteContent_def)

lemma has_id_stopEditing [simp]: "has_id i (stopEditing v n) = has_id i n"
  by (simp add: has_id_def)

lemma find_update_first:
  assumes "\<And>x. P (f x) = P x"
  shows "find P (update_first P f xs) = map_option f (find P xs)"
  using assms by (induction xs) simp_all

lemma find_has_id: "find (has_id i) xs = Some n \<Longrightarrow> note_id n = i"
  by (induction xs) (auto simp: has_id_def split: if_splits)

lemma update_first_twice:
  assumes "\<And>x. P (g x) = P x"
  shows "update_first P f (update_first P g xs) = update_first P (\<lambda>x. f (g x)) xs"
  using assms by (induction xs) simp_all

lemma stopEditing_twice: "stopEditing v' (stopEditing v n) = stopEditing v n"
  by (simp add: stopEditing_def renderNoteContent_def)

text \<open>
  C10. While a note is being edited, Escape commits: the \<open>keydown\<close> listener of the
  content element does on Escape what it does on Enter without Shift, namely
  \<open>stopEditing\<close>, and so does the document's \<open>keydown\<close> listener on Escape when the note
  is the selected one; the two listeners one after the other, as one key press runs
  them, do it once. The note's text becomes the text the content element shows at
  that moment, whatever the text was before, the note leaves the editing state and its
  content is rendered again from the new text.
\<close>

theorem escape_commits:
  assumes "find (has_id i) (stickyNotes s) = Some n" and "isEditing n"
  shows "step d (ContentKeyDown i \<lparr>key = ''Escape'', ctrlKey = c, metaKey = m, shiftKey = sh\<rparr>) s
           = on_note i (stopEditing (textContent d i)) s
       \<and> step d (ContentKeyDown i \<lparr>key = ''Enter'', ctrlKey = c, metaKey = m, shiftKey = False\<rparr>) s
           = on_note i (stopEditing (textContent d i)) s
       \<and> (selectedNoteId s = Some i \<longrightarrow>
            step d (KeyDown \<lparr>key = ''Escape'', ctrlKey = c, metaKey = m, shiftKey = sh\<rparr>) s
              = on_note i (stopEditing (textContent d i)) s
          \<and> step d' (ContentKeyDown i \<lparr>key = ''Escape'', ctrlKey = c, metaKey = m, shiftKey = sh\<rparr>)
               (step d (KeyDown \<lparr>key = ''Escape'', ctrlKey = c, metaKey = m, shiftKey = sh\<rparr>) s)
              = on_note i (stopEditing (textContent d i)) s)
       \<and> find (has_id i) (stickyNotes (on_note i (stopEditing (textContent d i)) s))
           = Some (stopEditing (textContent d i) n)
       \<and> note_text (stopEditing (textContent d i) n) = textContent d i
       \<and> \<not> isEditing (stopEditing (textContent d i) n)
       \<and> content (element (stopEditing (textContent d i) n))
           = InnerHTML (parseMarkdown (textContent d i))"
proof -
  have esc: "content_onKeyDown \<lparr>key = ''Escape'', ctrlKey = c, metaKey = m, shiftKey = sh\<rparr> v
               = stopEditing v" for v
    by (rule ext) (simp add: content_onKeyDown_def)
  have ent: "content_onKeyDown \<lparr>key = ''Enter'', ctrlKey = c, metaKey = m, shiftKey = False\<rparr> v
               = stopEditing v" for v
    by (rule ext) (simp add: content_onKeyDown_def)
  have glob: "step d (KeyDown \<lparr>key = ''Escape'', ctrlKey = c, metaKey = m, shiftKey = sh\<rparr>) s
              = on_note i (stopEditing (textContent d i)) s" if "selectedNoteId s = Some i"
    using that assms find_has_id [OF assms(1)]
    by (simp add: globalKeyDownHandler_def key_create_def key_copy_def key_paste_def
          key_duplicate_def key_delete_def key_escape_def getSelectedNote_def)
  have both: "step d' (ContentKeyDown i \<lparr>key = ''Escape'', ctrlKey = c, metaKey = m, shiftKey = sh\<rparr>)
               (step d (KeyDown \<lparr>key = ''Escape'', ctrlKey = c, metaKey = m, shiftKey = sh\<rparr>) s)
              = on_note i (stopEditing (textContent d i)) s" if "selectedNoteId s = Some i"
    unfolding glob [OF that]
    by (simp add: on_note_def esc update_first_twice stopEditing_twice)
  have fnd: "find (has_id i) (stickyNotes (on_note i (stopEditing (textContent d i)) s))
           = Some (stopEditing (textContent d i) n)"
    using assms(1) by (simp add: on_note_def find_update_first)
  have fields: "note_text (stopEditing v n) = v \<and> \<not> isEditing (stopEditing v n)
       \<and> content (element (stopEditing v n)) = InnerHTML (parseMarkdown v)" for v
    using assms(2) by (simp add: stopEditing_def renderNoteContent_def)
  show ?thesis
    using glob both fnd fields [of "textContent d i"] by (simp add: esc ent)
qed

lemma one_note_notes:
  "stickyNotes one_note =
     [\<lparr>note_id = 1,
       element = \<lparr>selected = True, content = InnerHTML (parseMarkdown ''New note...''),
                  contentEditable = False, note_bg = Some ''#fef3c7'', note_fg = Some ''#92400e''\<rparr>,
       canvasX = 100, canvasY = 100, width = 240, height = 120,
       note_text = ''New note...'', color = ''yellow'', createdAt = 1705512345678,
       isEditing = False, isDragging = False, resizing = None\<rparr>]"
  by (simp add: one_note_def createStickyNote_def Let_def initial_state_def example_browser_def
        screenToCanvas_def selectNote_def deselectAllNotes_def on_note_def has_id_def
        set_selected_def renderNoteContent_def applyNoteColor_def createElement_def
        NOTE_COLORS_get_def NOTE_COLORS_def DEFAULT_COLOR_def DEFAULT_WIDTH_def DEFAULT_HEIGHT_def)

lemma one_note_rest:
  "noteIdCounter one_note = 1" "selectedNoteId one_note = Some 1"
  "clipboardNote one_note = None" "isTKeyHeld one_note = False"
  by (simp_all add: one_note_def createStickyNote_def Let_def initial_state_def
        selectNote_def deselectAllNotes_def on_note_def)

text \<open>
  C10 on a note whose text is \<open>New note...\<close> and whose content element shows \<open>edited\<close>:
  after Escape the text is \<open>edited\<close>.
\<close>

theorem escape_commits_witness:
  "map note_text (stickyNotes one_note_editing) = [''New note...'']
   \<and> map isEditing (stickyNotes one_note_editing) = [True]
   \<and> map note_text (stickyNotes (step example_browser
          (ContentKeyDown 1 \<lparr>key = ''Escape'', ctrlKey = False, metaKey = False, shiftKey = False\<rparr>)
          one_note_editing)) = [''edited'']
   \<and> map isEditing (stickyNotes (step example_browser
          (ContentKeyDown 1 \<lparr>key = ''Escape'', ctrlKey = False, metaKey = False, shiftKey = False\<rparr>)
          one_note_editing)) = [False]"
proof -
  define n where "n = startEditing (hd (stickyNotes one_note))"
  have ns: "stickyNotes one_note_editing = [n]"
    by (simp add: one_note_editing_def on_note_def one_note_notes has_id_def n_def)
  have f: "find (has_id 1) (stickyNotes one_note_editing) = Some n"
    by (simp add: ns) (simp add: n_def one_note_notes has_id_def startEditing_def
          showRawContent_def Let_def)
  have e: "isEditing n"
    by (simp add: n_def startEditing_def showRawContent_def Let_def)
  have t: "note_text n = ''New note...''"
    by (simp add: n_def one_note_notes startEditing_def showRawContent_def Let_def)
  have tc: "textContent example_browser i = ''edited''" for i
    by (simp add: example_browser_def)
  have hid: "has_id (Suc 0) n"
    by (simp add: n_def one_note_notes has_id_def startEditing_def showRawContent_def Let_def)
  note w = escape_commits [OF f e, of example_browser False False False]
  have "stickyNotes (step example_browser
          (ContentKeyDown 1 \<lparr>key = ''Escape'', ctrlKey = False, metaKey = False, shiftKey = False\<rparr>)
          one_note_editing) = [stopEditing ''edited'' n]"
    using w by (simp add: on_note_def ns tc hid del: step.simps)
  moreover have "note_text (stopEditing ''edited'' n) = ''edited''"
     "\<not> isEditing (stopEditing ''edited'' n)"
    using w by (simp_all add: tc del: step.simps)
  ultimately show ?thesis
    using ns e t by simp
qed

subsection \<open>Persistence\<close>

lemma valid_xy_nums: "valid_xy r \<Longrightarrow> \<exists>x y. sv_x r = JNum x \<and> sv_y r = JNum y"
  by (cases "sv_x r"; cases "sv_y r") (simp_all add: valid_xy_def)

lemma deserializeNotes_skip:
  "\<not> valid_xy r \<Longrightarrow> deserializeNotes d (r # rest) s = deserializeNotes d rest s"
  by (cases "sv_x r"; cases "sv_y r") (simp_all add: valid_xy_def)


lemma num_or_idem [simp]: "num_or (num_or v d) d = num_or v d"
  by (simp add: num_or_def)

lemma num_or_opt_idem [simp]: "num_or (opt_num_or v d) d = opt_num_or v d"
  by (simp add: opt_num_or_def num_or_def split: option.splits)

lemma deserializeNotes_loads:
  "\<exists>new. stickyNotes (deserializeNotes d recs s) = stickyNotes s @ new
     \<and> list_all2 (restores d) (filter valid_xy recs) new
     \<and> map note_id new = [noteIdCounter s + 1 ..< noteIdCounter s + 1 + length new]
     \<and> noteIdCounter (deserializeNotes d recs s) = noteIdCounter s + length new
     \<and> selectedNoteId (deserializeNotes d recs s) = selectedNoteId s
     \<and> clipboardNote (deserializeNotes d recs s) = clipboardNote s
     \<and> isTKeyHeld (deserializeNotes d recs s) = isTKeyHeld s"
proof (induction recs arbitrary: s)
  case Nil
  show ?case by simp
next
  case (Cons r recs)
  show ?case
  proof (cases "valid_xy r")
    case False
    have "deserializeNotes d (r # recs) s = deserializeNotes d recs s"
      by (rule deserializeNotes_skip [OF False])
    moreover have "filter valid_xy (r # recs) = filter valid_xy recs"
      using False by simp
    ultimately show ?thesis
      using Cons.IH [of s] by (simp only:)
  next
    case True
    then obtain x y where xy: "sv_x r = JNum x" "sv_y r = JNum y"
      by (cases "sv_x r"; cases "sv_y r") (simp_all add: valid_xy_def)
    define data where "data = \<lparr>d_canvasX = x, d_canvasY = y,
                     d_width = opt_num_or (sv_width r) DEFAULT_WIDTH,
                     d_height = opt_num_or (sv_height r) DEFAULT_HEIGHT,
                     d_text = opt_str_or (sv_text r) ''New note...'',
                     d_color = opt_str_or (sv_color r) DEFAULT_COLOR,
                     d_createdAt = opt_num_or (sv_createdAt r) (now d)\<rparr>"
    define s1 where "s1 = createStickyNoteFromData data s"
    have step1: "deserializeNotes d (r # recs) s = deserializeNotes d recs s1"
      using xy by (simp add: s1_def data_def)
    define n1 where "n1 = last (stickyNotes s1)"
    have n1: "stickyNotes s1 = stickyNotes s @ [n1]" "restores d r n1"
       "note_id n1 = noteIdCounter s + 1"
      by (simp_all add: n1_def s1_def createStickyNoteFromData_def Let_def renderNoteContent_def
            restores_def xy data_def DEFAULT_WIDTH_def DEFAULT_HEIGHT_def)
    have s1_rest: "noteIdCounter s1 = noteIdCounter s + 1" "selectedNoteId s1 = selectedNoteId s"
       "clipboardNote s1 = clipboardNote s" "isTKeyHeld s1 = isTKeyHeld s"
      by (simp_all add: s1_def createStickyNoteFromData_def Let_def)
    from Cons.IH [of s1] obtain new where new:
      "stickyNotes (deserializeNotes d recs s1) = stickyNotes s1 @ new"
      "list_all2 (restores d) (filter valid_xy recs) new"
      "map note_id new = [noteIdCounter s1 + 1 ..< noteIdCounter s1 + 1 + length new]"
      "noteIdCounter (deserializeNotes d recs s1) = noteIdCounter s1 + length new"
      "selectedNoteId (deserializeNotes d recs s1) = selectedNoteId s1"
      "clipboardNote (deserializeNotes d recs s1) = clipboardNote s1"
      "isTKeyHeld (deserializeNotes d recs s1) = isTKeyHeld s1"
      by blast
    have ids: "map note_id (n1 # new) =
        [noteIdCounter s + 1 ..< noteIdCounter s + 1 + length (n1 # new)]"
      using n1(3) new(3) s1_rest(1) by (simp add: upt_conv_Cons del: upt_Suc)
    show ?thesis
      apply (rule exI [of _ "n1 # new"])
      using True n1 new(1,2,4-) s1_rest ids step1 by (simp del: upt_Suc deserializeNotes.simps)
  qed
qed



lemma restores_serializeNote:
  "restores d2 (serializeNote d1 n) n' \<Longrightarrow> same_content n n'"
  by (auto simp: restores_def serializeNote_def same_content_def opt_num_or_def opt_str_or_def
        num_or_def str_or_def DEFAULT_WIDTH_def DEFAULT_HEIGHT_def)

lemma valid_xy_serializeNote [simp]: "valid_xy (serializeNote d n)"
  by (simp add: valid_xy_def serializeNote_def)

text \<open>
  C1, as the specification states it, fails: the restored notes do not have the ids of
  the originals. A store holding the note of id 1 comes back holding a note of id 2,
  since \<open>createStickyNoteFromData\<close> takes the next value of the counter and never reads
  the saved id.
\<close>

theorem save_and_reload_ids_counterexample:
  "map note_id (stickyNotes one_note) = [1]
   \<and> map note_id (stickyNotes (save_and_reload example_browser example_browser one_note)) = [2]"
  by (simp add: save_and_reload_def serializeNotes_def serializeNote_def clearAllNotes_def
        one_note_notes one_note_rest createStickyNoteFromData_def Let_def)

text \<open>
  C1, amended. For every note set, saving, clearing and loading gives as many notes in
  the same order, each with the position of its original and with the original's
  width, height, text, colour and timestamp wherever that value is truthy (not zero,
  not empty). The ids are not restored: the restored notes get the next ids of the
  counter, in order. Nothing is selected afterwards.
\<close>

theorem save_and_reload_content:
  "list_all2 same_content (stickyNotes s) (stickyNotes (save_and_reload d1 d2 s))
   \<and> map note_id (stickyNotes (save_and_reload d1 d2 s))
        = [noteIdCounter s + 1 ..< noteIdCounter s + 1 + length (stickyNotes s)]
   \<and> noteIdCounter (save_and_reload d1 d2 s) = noteIdCounter s + length (stickyNotes s)
   \<and> selectedNoteId (save_and_reload d1 d2 s) = None"
proof -
  let ?c = "clearAllNotes s"
  let ?recs = "serializeNotes d1 s"
  obtain new where new: "stickyNotes (deserializeNotes d2 ?recs ?c) = stickyNotes ?c @ new"
     "list_all2 (restores d2) (filter valid_xy ?recs) new"
     "map note_id new = [noteIdCounter ?c + 1 ..< noteIdCounter ?c + 1 + length new]"
     "noteIdCounter (deserializeNotes d2 ?recs ?c) = noteIdCounter ?c + length new"
     "selectedNoteId (deserializeNotes d2 ?recs ?c) = selectedNoteId ?c"
    using deserializeNotes_loads [of d2 ?recs ?c] by blast
  have c: "stickyNotes ?c = []" "noteIdCounter ?c = noteIdCounter s" "selectedNoteId ?c = None"
    by (simp_all add: clearAllNotes_def)
  have f: "filter valid_xy ?recs = ?recs"
    by (simp add: serializeNotes_def)
  have "list_all2 (restores d2) (map (serializeNote d1) (stickyNotes s)) new"
    using new(2) unfolding f by (simp add: serializeNotes_def)
  then have l2: "list_all2 (\<lambda>n n'. restores d2 (serializeNote d1 n) n') (stickyNotes s) new"
    by (simp add: list_all2_map1)
  then have sc: "list_all2 same_content (stickyNotes s) new"
    by (rule list_all2_mono) (rule restores_serializeNote)
  have len: "length new = length (stickyNotes s)"
    using l2 by (simp add: list_all2_lengthD)
  show ?thesis
    using new(1,3,4,5) sc len unfolding c save_and_reload_def by (simp del: upt_Suc)
qed

text \<open>C1, amended, on the store holding one new note.\<close>

theorem save_and_reload_content_witness:
  "map note_id (stickyNotes (save_and_reload example_browser example_browser one_note)) = [2]
   \<and> map canvasX (stickyNotes (save_and_reload example_browser example_browser one_note)) = [100]
   \<and> map note_text (stickyNotes (save_and_reload example_browser example_browser one_note))
        = [''New note...'']
   \<and> map color (stickyNotes (save_and_reload example_browser example_browser one_note)) = [''yellow'']
   \<and> map width (stickyNotes (save_and_reload example_browser example_browser one_note)) = [240]"
proof -
  note w = save_and_reload_content [of one_note example_browser example_browser]
  obtain n' where n': "stickyNotes (save_and_reload example_browser example_browser one_note) = [n']"
    using w by (auto simp: one_note_notes list_all2_Cons1)
  have "same_content (hd (stickyNotes one_note)) n'" "note_id n' = 2"
    using w unfolding n' by (simp_all add: one_note_notes one_note_rest)
  then show ?thesis
    unfolding n' by (simp add: one_note_notes same_content_def)
qed

subsection \<open>Invariants on every note\<close>

lemma set_update_first: "set (update_first P f xs) \<subseteq> set xs \<union> f ` set xs"
  by (induction xs) auto

lemma set_remove_first: "set (remove_first P xs) \<subseteq> set xs"
  by (induction xs) auto

lemma find_Some_set: "find P xs = Some x \<Longrightarrow> x \<in> set xs"
  by (induction xs) (auto split: if_splits)

lemma keeps_data_simps [simp]:
  "keeps_data (set_selected b)" "keeps_data startEditing" "keeps_data (stopEditing v)"
  "keeps_data (content_onKeyDown e v)" "keeps_data (content_onBlurTimeout v)"
  "keeps_data (resize_onMouseDown x y)" "keeps_data resize_onMouseUp"
  "keeps_data (drag_onMouseUp d)" "keeps_data (\<lambda>n. n\<lparr>isDragging := True\<rparr>)"
  by (simp_all add: keeps_data_def set_selected_def startEditing_def showRawContent_def
        stopEditing_def content_onKeyDown_def content_onBlurTimeout_def resize_onMouseDown_def
        resize_onMouseUp_def drag_onMouseUp_def Let_def)

lemma notes_ok_on_note:
  assumes "notes_ok Q s"
    and "\<And>n. Q (width n) (height n) (color n) \<Longrightarrow> Q (width (f n)) (height (f n)) (color (f n))"
  shows "notes_ok Q (on_note i f s)"
  using assms set_update_first [of "has_id i" f "stickyNotes s"]
  by (fastforce simp: notes_ok_def on_note_def)

lemma notes_ok_on_note_keeps:
  "notes_ok Q s \<Longrightarrow> keeps_data f \<Longrightarrow> notes_ok Q (on_note i f s)"
  by (rule notes_ok_on_note) (simp_all add: keeps_data_def)

lemma notes_ok_selectedNoteId [simp]:
  "notes_ok Q (s\<lparr>selectedNoteId := x\<rparr>) = notes_ok Q s"
  "notes_ok Q (s\<lparr>isTKeyHeld := b\<rparr>) = notes_ok Q s"
  "notes_ok Q (s\<lparr>noteIdCounter := c\<rparr>) = notes_ok Q s"
  by (simp_all add: notes_ok_def)

lemma notes_ok_deselectAllNotes: "notes_ok Q s \<Longrightarrow> notes_ok Q (deselectAllNotes s)"
  by (simp add: deselectAllNotes_def notes_ok_on_note_keeps split: option.splits)

lemma notes_ok_selectNote: "notes_ok Q s \<Longrightarrow> notes_ok Q (selectNote i s)"
  by (simp add: selectNote_def notes_ok_on_note_keeps notes_ok_deselectAllNotes)

lemma notes_ok_removeNote: "notes_ok Q s \<Longrightarrow> notes_ok Q (removeNote i s)"
  using set_remove_first [of "has_id i" "stickyNotes s"]
  by (auto simp: removeNote_def notes_ok_def split: option.splits)

lemma notes_ok_clearAllNotes: "notes_ok Q s \<Longrightarrow> notes_ok Q (clearAllNotes s)"
  by (simp add: clearAllNotes_def notes_ok_def)

lemma notes_ok_push:
  "notes_ok Q s \<Longrightarrow> Q (width n) (height n) (color n) \<Longrightarrow>
   notes_ok Q (s\<lparr>noteIdCounter := c, stickyNotes := stickyNotes s @ [n]\<rparr>)"
  by (simp add: notes_ok_def)

lemma notes_ok_createStickyNote:
  "notes_ok Q s \<Longrightarrow> Q DEFAULT_WIDTH DEFAULT_HEIGHT DEFAULT_COLOR \<Longrightarrow>
   notes_ok Q (createStickyNote d x y s)"
  by (simp add: createStickyNote_def Let_def notes_ok_selectNote notes_ok_push)

lemma notes_ok_createStickyNoteFromData:
  "notes_ok Q s \<Longrightarrow>
   Q (num_or (d_width data) DEFAULT_WIDTH) (num_or (d_height data) DEFAULT_HEIGHT) (d_color data) \<Longrightarrow>
   notes_ok Q (createStickyNoteFromData data s)"
  by (simp add: createStickyNoteFromData_def Let_def notes_ok_push)

lemma notes_ok_deserializeNotes:
  "notes_ok Q s \<Longrightarrow> \<forall>r \<in> set recs. valid_xy r \<longrightarrow> saved_ok Q r \<Longrightarrow>
   notes_ok Q (deserializeNotes d recs s)"
proof (induction recs arbitrary: s)
  case Nil
  then show ?case by simp
next
  case (Cons r recs)
  show ?case
  proof (cases "valid_xy r")
    case False
    then show ?thesis
      using Cons by (simp add: deserializeNotes_skip del: deserializeNotes.simps)
  next
    case True
    then obtain x y where xy: "sv_x r = JNum x" "sv_y r = JNum y"
      by (cases "sv_x r"; cases "sv_y r") (simp_all add: valid_xy_def)
    have "saved_ok Q r" using Cons.prems True by simp
    then show ?thesis
      using Cons xy by (simp add: notes_ok_createStickyNoteFromData saved_ok_def)
  qed
qed

lemma getSelectedNote_set: "getSelectedNote s = Some n \<Longrightarrow> n \<in> set (stickyNotes s)"
  by (auto simp: getSelectedNote_def split: option.splits dest: find_Some_set)

lemma notes_ok_copySelectedNote: "notes_ok Q s \<Longrightarrow> notes_ok Q (copySelectedNote s)"
  by (auto simp: copySelectedNote_def notes_ok_def split: option.splits dest: getSelectedNote_set)

lemma notes_ok_pasteNote: "notes_ok Q s \<Longrightarrow> notes_ok Q (pasteNote d s)"
  by (auto simp: pasteNote_def Let_def notes_ok_def [of Q s] split: option.splits
        intro!: notes_ok_selectNote notes_ok_push)

lemma notes_ok_duplicateSelectedNote: "notes_ok Q s \<Longrightarrow> notes_ok Q (duplicateSelectedNote d s)"
  by (auto simp: duplicateSelectedNote_def Let_def split: option.splits
        intro!: notes_ok_selectNote notes_ok_push dest!: getSelectedNote_set)
     (simp add: notes_ok_def)

lemma notes_ok_globalKeyDownHandler:
  assumes "notes_ok Q s"
  shows "notes_ok Q (globalKeyDownHandler d e s)"
proof -
  have 1: "notes_ok Q (key_create d e s)" if "notes_ok Q s" for s using that by (simp add: key_create_def)
  have 2: "notes_ok Q (key_copy d e s)" if "notes_ok Q s" for s using that by (simp add: key_copy_def notes_ok_copySelectedNote)
  have 3: "notes_ok Q (key_paste d e s)" if "notes_ok Q s" for s using that by (simp add: key_paste_def notes_ok_pasteNote)
  have 4: "notes_ok Q (key_duplicate d e s)" if "notes_ok Q s" for s using that by (simp add: key_duplicate_def notes_ok_duplicateSelectedNote)
  have 5: "notes_ok Q (key_delete d e s)" if "notes_ok Q s" for s using that
    by (simp add: key_delete_def notes_ok_removeNote split: option.splits)
  have 6: "notes_ok Q (key_escape d e s)" if "notes_ok Q s" for s using that
    by (simp add: key_escape_def notes_ok_deselectAllNotes notes_ok_on_note_keeps
          split: option.splits)
  show ?thesis
    unfolding globalKeyDownHandler_def by (intro 6 5 4 3 2 1 assms)
qed

lemma notes_ok_map:
  assumes "notes_ok Q s"
    and "\<And>n. Q (width n) (height n) (color n) \<Longrightarrow> Q (width (f n)) (height (f n)) (color (f n))"
  shows "notes_ok Q (s\<lparr>stickyNotes := map f (stickyNotes s)\<rparr>)"
  using assms by (auto simp: notes_ok_def)

lemma resize_onMouseMove_fields:
  "color (resize_onMouseMove t x y n) = color n"
  "resizing n = None \<Longrightarrow> resize_onMouseMove t x y n = n"
  "resizing n = Some r \<Longrightarrow> width (resize_onMouseMove t x y n)
       = max MIN_WIDTH (startWidth r + (x - startX r) / scale t)"
  "resizing n = Some r \<Longrightarrow> height (resize_onMouseMove t x y n)
       = max MIN_HEIGHT (startHeight r + (y - startY r) / scale t)"
  by (simp_all add: resize_onMouseMove_def Let_def split: option.splits)

lemma notes_ok_step:
  assumes "notes_ok Q s"
    and "Q DEFAULT_WIDTH DEFAULT_HEIGHT DEFAULT_COLOR"
    and "\<And>w h k k'. Q w h k \<Longrightarrow> k' \<in> set palette_keys \<Longrightarrow> Q w h k'"
    and "\<And>w h k a b. Q w h k \<Longrightarrow> Q (max MIN_WIDTH a) (max MIN_HEIGHT b) k"
    and "\<And>recs. e = LoadRestore recs \<Longrightarrow> \<forall>r \<in> set recs. valid_xy r \<longrightarrow> saved_ok Q r"
  shows "notes_ok Q (step d e s)"
proof (cases e)
  case (KeyDown x1)
  then show ?thesis using assms(1) by (simp add: notes_ok_globalKeyDownHandler)
next
  case (KeyUp x2)
  then show ?thesis using assms(1) by (simp add: globalKeyUpHandler_def)
next
  case WindowBlur
  then show ?thesis using assms(1) by simp
next
  case (CanvasClick x y)
  then show ?thesis using assms(1,2) by (simp add: notes_ok_createStickyNote)
next
  case OverlayMouseDown
  then show ?thesis using assms(1) by (simp add: notes_ok_deselectAllNotes)
next
  case (NoteMouseDown i tg)
  then show ?thesis using assms(1) by (simp add: notes_ok_selectNote)
next
  case (HeaderMouseDown i tg)
  then show ?thesis using assms(1) by (simp add: notes_ok_selectNote notes_ok_on_note_keeps)
next
  case (ContentDblClick i)
  then show ?thesis using assms(1) by (simp add: notes_ok_on_note_keeps)
next
  case (ContentKeyDown i ke)
  then show ?thesis using assms(1) by (simp add: notes_ok_on_note_keeps)
next
  case (ContentBlurTimeout i)
  then show ?thesis using assms(1) by (simp add: notes_ok_on_note_keeps)
next
  case (CloseClick i)
  then show ?thesis using assms(1) by (simp add: notes_ok_removeNote)
next
  case (ColorDotClick i k)
  have "notes_ok Q (on_note i (changeNoteColor k) s)" if "k \<in> set palette_keys"
    using assms(1)
  proof (rule notes_ok_on_note)
    fix n :: noteData assume "Q (width n) (height n) (color n)"
    then show "Q (width (changeNoteColor k n)) (height (changeNoteColor k n))
                 (color (changeNoteColor k n))"
      using assms(3) [OF _ that] by (simp add: changeNoteColor_def)
  qed
  then show ?thesis using ColorDotClick assms(1) by simp
next
  case (ResizeMouseDown i x y)
  then show ?thesis using assms(1) by (simp add: notes_ok_on_note_keeps)
next
  case (MouseMove x y)
  have "notes_ok Q (s\<lparr>stickyNotes := map (resize_onMouseMove (canvas_ds d) x y) (stickyNotes s)\<rparr>)"
    using assms(1)
  proof (rule notes_ok_map)
    fix n :: noteData assume q: "Q (width n) (height n) (color n)"
    show "Q (width (resize_onMouseMove (canvas_ds d) x y n))
            (height (resize_onMouseMove (canvas_ds d) x y n))
            (color (resize_onMouseMove (canvas_ds d) x y n))"
    proof (cases "resizing n")
      case None
      then show ?thesis using q by (simp add: resize_onMouseMove_fields)
    next
      case (Some r)
      then show ?thesis using assms(4) [OF q] by (simp add: resize_onMouseMove_fields)
    qed
  qed
  then show ?thesis using MouseMove by simp
next
  case MouseUp
  have "keeps_data (\<lambda>n. resize_onMouseUp (drag_onMouseUp d n))"
    by (simp add: keeps_data_def resize_onMouseUp_def drag_onMouseUp_def Let_def)
  then have "notes_ok Q (s\<lparr>stickyNotes := map (\<lambda>n. resize_onMouseUp (drag_onMouseUp d n)) (stickyNotes s)\<rparr>)"
    using assms(1) by (intro notes_ok_map) (simp_all add: keeps_data_def)
  then show ?thesis using MouseUp by simp
next
  case LoadClear
  then show ?thesis using assms(1) by (simp add: notes_ok_clearAllNotes)
next
  case (LoadRestore recs)
  then show ?thesis using assms(1,5) by (simp add: notes_ok_deserializeNotes)
qed

lemma key_T_down: "step example_browser (KeyDown key_T) s = s\<lparr>isTKeyHeld := True\<rparr>"
  by (simp add: globalKeyDownHandler_def key_create_def key_copy_def key_paste_def
        key_duplicate_def key_delete_def key_escape_def key_T_def example_browser_def modifier_def)

lemma held_initial: "initial_state\<lparr>isTKeyHeld := True\<rparr> =
    \<lparr>stickyNotes = [], noteIdCounter = 0, selectedNoteId = None,
     clipboardNote = None, isTKeyHeld = True\<rparr>"
  by (simp add: initial_state_def)

lemma first_click:
  "step example_browser (CanvasClick 100 100) (initial_state\<lparr>isTKeyHeld := True\<rparr>) =
     \<lparr>stickyNotes =
        [\<lparr>note_id = 1,
          element = \<lparr>selected = True, content = InnerHTML (parseMarkdown ''New note...''),
                     contentEditable = False, note_bg = Some ''#fef3c7'', note_fg = Some ''#92400e''\<rparr>,
          canvasX = 100, canvasY = 100, width = 240, height = 120,
          note_text = ''New note...'', color = ''yellow'', createdAt = 1705512345678,
          isEditing = False, isDragging = False, resizing = None\<rparr>],
      noteIdCounter = 1, selectedNoteId = Some 1, clipboardNote = None, isTKeyHeld = True\<rparr>"
  by (simp add: held_initial createStickyNote_def Let_def example_browser_def
        screenToCanvas_def selectNote_def deselectAllNotes_def on_note_def has_id_def
        set_selected_def renderNoteContent_def applyNoteColor_def createElement_def
        NOTE_COLORS_get_def NOTE_COLORS_def DEFAULT_COLOR_def DEFAULT_WIDTH_def DEFAULT_HEIGHT_def)

subsection \<open>Sizes\<close>

lemma sizes_ok_notes_ok:
  "sizes_ok s = notes_ok (\<lambda>w h k. MIN_WIDTH \<le> w \<and> MIN_HEIGHT \<le> h) s"
  by (simp add: sizes_ok_def notes_ok_def)

lemma sizes_ok_step:
  assumes "sizes_ok s" and "loads_sizes_ok e"
  shows "sizes_ok (step d e s)"
  unfolding sizes_ok_notes_ok
proof (rule notes_ok_step)
  show "notes_ok (\<lambda>w h k. MIN_WIDTH \<le> w \<and> MIN_HEIGHT \<le> h) s"
    using assms(1) by (simp add: sizes_ok_notes_ok)
  show "MIN_WIDTH \<le> DEFAULT_WIDTH \<and> MIN_HEIGHT \<le> DEFAULT_HEIGHT"
    by (simp add: MIN_WIDTH_def MIN_HEIGHT_def DEFAULT_WIDTH_def DEFAULT_HEIGHT_def)
  show "\<forall>r\<in>set recs. valid_xy r \<longrightarrow> saved_ok (\<lambda>w h k. MIN_WIDTH \<le> w \<and> MIN_HEIGHT \<le> h) r"
    if "e = LoadRestore recs" for recs
    using assms(2) that
    by (auto simp: loads_sizes_ok_def saved_ok_def saved_size_ok_def opt_num_or_def num_or_def
          MIN_WIDTH_def MIN_HEIGHT_def DEFAULT_WIDTH_def DEFAULT_HEIGHT_def split: option.splits)
qed simp_all

lemma sizes_ok_run:
  "sizes_ok s \<Longrightarrow> \<forall>(d, e) \<in> set es. 0 < scale (canvas_ds d) \<and> loads_sizes_ok e \<Longrightarrow>
   sizes_ok (run es s)"
  by (induction es arbitrary: s) (auto simp: sizes_ok_step)

text \<open>
  C2, as the specification states it, fails: deserialization does not enforce the
  minimum size. A record with width 50 and height 30 is loaded as a note of that size.
\<close>

theorem deserialized_size_counterexample:
  "map width (stickyNotes (deserializeNotes example_browser [small_record] initial_state)) = [50]
   \<and> map height (stickyNotes (deserializeNotes example_browser [small_record] initial_state)) = [30]
   \<and> \<not> sizes_ok (deserializeNotes example_browser [small_record] initial_state)"
  by (simp add: small_record_def createStickyNoteFromData_def Let_def initial_state_def
        opt_num_or_def num_or_def sizes_ok_def MIN_WIDTH_def)

text \<open>
  C2, amended. Width and height are at least \<open>MIN_WIDTH\<close> and \<open>MIN_HEIGHT\<close> for every
  note and for the clipboard, from the empty store on and through every listener, as
  long as the scale is positive and every loaded record has a size that is missing,
  zero or not below the minimum: deserialization stores a persisted size as it is. In
  particular every move of a resize gesture leaves the note with at least the minimum
  size, whatever the pointer position and the note's size before; and the records that
  \<open>serializeNotes\<close> writes for notes that respect the minimum respect it too.
\<close>

theorem sizes_at_least_minimum:
  "sizes_ok initial_state
   \<and> (sizes_ok s \<and> 0 < scale (canvas_ds d) \<and> loads_sizes_ok e \<longrightarrow> sizes_ok (step d e s))
   \<and> (sizes_ok s \<and> (\<forall>(d, e) \<in> set es. 0 < scale (canvas_ds d) \<and> loads_sizes_ok e)
        \<longrightarrow> sizes_ok (run es s))
   \<and> (resizing n = Some r \<and> 0 < scale t
        \<longrightarrow> MIN_WIDTH \<le> width (resize_onMouseMove t x y n)
          \<and> MIN_HEIGHT \<le> height (resize_onMouseMove t x y n))
   \<and> (sizes_ok s \<longrightarrow> (\<forall>r \<in> set (serializeNotes d s). saved_size_ok r))"
proof -
  have "sizes_ok initial_state"
    by (simp add: sizes_ok_def initial_state_def)
  moreover have "sizes_ok s \<longrightarrow> (\<forall>r \<in> set (serializeNotes d s). saved_size_ok r)"
    by (auto simp: sizes_ok_def serializeNotes_def serializeNote_def saved_size_ok_def num_or_def
          MIN_WIDTH_def MIN_HEIGHT_def DEFAULT_WIDTH_def DEFAULT_HEIGHT_def)
  ultimately show ?thesis
    using sizes_ok_step [of s e d] sizes_ok_run [of s es]
    by (auto simp: resize_onMouseMove_fields)
qed

text \<open>
  C2, amended, on a resize gesture that drags the handle of a new note 5300 pixels to
  the left and 5200 up: the note ends with width 120 and height 80.
\<close>

theorem sizes_at_least_minimum_witness:
  "sizes_ok (run shrink_gesture initial_state)
   \<and> map width (stickyNotes (run shrink_gesture initial_state)) = [120]
   \<and> map height (stickyNotes (run shrink_gesture initial_state)) = [80]"
proof -
  have h: "\<forall>(d, e) \<in> set shrink_gesture. 0 < scale (canvas_ds d) \<and> loads_sizes_ok e"
    by (simp add: shrink_gesture_def example_browser_def loads_sizes_ok_def)
  have ok: "sizes_ok (run shrink_gesture initial_state)"
    using sizes_at_least_minimum [of initial_state example_browser "KeyDown key_T" shrink_gesture] h
    by blast
  have "stickyNotes (run shrink_gesture initial_state) =
        [\<lparr>note_id = 1,
          element = \<lparr>selected = True, content = InnerHTML (parseMarkdown ''New note...''),
                     contentEditable = False, note_bg = Some ''#fef3c7'', note_fg = Some ''#92400e''\<rparr>,
          canvasX = 100, canvasY = 100, width = 120, height = 80,
          note_text = ''New note...'', color = ''yellow'', createdAt = 1705512345678,
          isEditing = False, isDragging = False, resizing = None\<rparr>]"
    unfolding shrink_gesture_def run.simps key_T_down first_click
    by (simp add: on_note_def has_id_def resize_onMouseDown_def resize_onMouseMove_def Let_def
          resize_onMouseUp_def drag_onMouseUp_def example_browser_def MIN_WIDTH_def MIN_HEIGHT_def)
  then show ?thesis
    using ok by simp
qed

subsection \<open>Colours\<close>








subsection \<open>Selection\<close>

lemma find_None_iff_has_id: "(find (has_id i) xs = None) = (i \<notin> note_id ` set xs)"
  by (induction xs) (auto simp: has_id_def)

lemma live_iff: "live i s = (i \<in> note_id ` set (stickyNotes s))"
  by (simp add: live_def find_None_iff_has_id)

lemma update_first_distinct:
  "distinct (map note_id xs) \<Longrightarrow>
   update_first (has_id i) f xs = map (\<lambda>n. if note_id n = i then f n else n) xs"
proof (induction xs)
  case Nil
  show ?case by simp
next
  case (Cons x xs)
  show ?case
  proof (cases "note_id x = i")
    case True
    then have "i \<notin> note_id ` set xs" using Cons.prems by auto
    then have "map (\<lambda>n. if note_id n = i then f n else n) xs = xs"
      by (induction xs) auto
    then show ?thesis using True by (simp add: has_id_def)
  next
    case False
    then show ?thesis using Cons by (simp add: has_id_def)
  qed
qed

lemma remove_first_distinct:
  "distinct (map note_id xs) \<Longrightarrow>
   remove_first (has_id i) xs = filter (\<lambda>n. note_id n \<noteq> i) xs"
proof (induction xs)
  case Nil
  show ?case by simp
next
  case (Cons x xs)
  show ?case
  proof (cases "note_id x = i")
    case True
    then have "i \<notin> note_id ` set xs" using Cons.prems by auto
    then have "filter (\<lambda>n. note_id n \<noteq> i) xs = xs"
      by (induction xs) auto
    then show ?thesis using True by (simp add: has_id_def)
  next
    case False
    then show ?thesis using Cons by (simp add: has_id_def)
  qed
qed

lemma ids_update_first:
  "(\<And>n. note_id (f n) = note_id n) \<Longrightarrow>
   map note_id (update_first P f xs) = map note_id xs"
  by (induction xs) simp_all

lemma live_on_note:
  "keeps_selection f \<Longrightarrow> live i (on_note j f s) = live i s"
proof -
  assume "keeps_selection f"
  then have "map note_id (update_first (has_id j) f (stickyNotes s)) = map note_id (stickyNotes s)"
    by (intro ids_update_first) (simp add: keeps_selection_def)
  then have "set (map note_id (update_first (has_id j) f (stickyNotes s)))
             = set (map note_id (stickyNotes s))"
    by simp
  then show ?thesis
    by (simp add: live_iff on_note_def)
qed

lemma keeps_selection_simps [simp]:
  "keeps_selection startEditing" "keeps_selection (stopEditing v)"
  "keeps_selection (content_onKeyDown e v)" "keeps_selection (content_onBlurTimeout v)"
  "keeps_selection (resize_onMouseDown x y)" "keeps_selection resize_onMouseUp"
  "keeps_selection (drag_onMouseUp d)" "keeps_selection (\<lambda>n. n\<lparr>isDragging := True\<rparr>)"
  "keeps_selection (resize_onMouseMove t x y)"
  "keeps_selection (\<lambda>n. resize_onMouseUp (drag_onMouseUp d n))"
  by (simp_all add: keeps_selection_def startEditing_def showRawContent_def
        stopEditing_def content_onKeyDown_def content_onBlurTimeout_def resize_onMouseDown_def
        resize_onMouseUp_def drag_onMouseUp_def resize_onMouseMove_def Let_def
        split: option.splits)

lemma selected_applyNoteColor [simp]: "selected (applyNoteColor el k) = selected el"
  by (simp add: applyNoteColor_def Let_def split: property.splits)

lemma keeps_selection_changeNoteColor [simp]: "keeps_selection (changeNoteColor k)"
  by (simp add: keeps_selection_def changeNoteColor_def)

lemma selection_ok_map:
  "selection_ok s \<Longrightarrow> keeps_selection f \<Longrightarrow>
   selection_ok (s\<lparr>stickyNotes := map f (stickyNotes s)\<rparr>)"
  by (auto simp: selection_ok_def keeps_selection_def live_iff comp_def image_iff)

lemma selection_ok_on_note:
  assumes "selection_ok s" and "keeps_selection f"
  shows "selection_ok (on_note i f s)"
proof -
  have d: "distinct (map note_id (stickyNotes s))"
    using assms(1) by (simp add: selection_ok_def)
  have k: "keeps_selection (\<lambda>n. if note_id n = i then f n else n)"
    using assms(2) by (simp add: keeps_selection_def)
  show ?thesis
    unfolding on_note_def update_first_distinct [OF d]
    by (rule selection_ok_map [OF assms(1) k])
qed

lemma selection_ok_flags [simp]:
  "selection_ok (s\<lparr>isTKeyHeld := b\<rparr>) = selection_ok s"
  "selection_ok (s\<lparr>clipboardNote := c\<rparr>) = selection_ok s"
  by (simp_all add: selection_ok_def live_iff)

lemma deselectAllNotes_eq:
  assumes "selection_ok s"
  shows "deselectAllNotes s =
     s\<lparr>stickyNotes := map (set_selected False) (stickyNotes s), selectedNoteId := None\<rparr>"
proof (cases "selectedNoteId s")
  case None
  then have "\<forall>n \<in> set (stickyNotes s). \<not> selected (element n)"
    using assms by (simp add: selection_ok_def)
  then have "map (set_selected False) (stickyNotes s) = stickyNotes s"
    by (induction "stickyNotes s") (auto simp: set_selected_def map_idI)
  then show ?thesis using None by (simp add: deselectAllNotes_def)
next
  case (Some i)
  have d: "distinct (map note_id (stickyNotes s))"
    using assms by (simp add: selection_ok_def)
  have "(if note_id n = i then set_selected False n else n) = set_selected False n"
    if "n \<in> set (stickyNotes s)" for n
    using that assms Some by (auto simp: selection_ok_def set_selected_def)
  then have "map (\<lambda>n. if note_id n = i then set_selected False n else n) (stickyNotes s)
             = map (set_selected False) (stickyNotes s)"
    by (simp cong: map_cong)
  then show ?thesis
    using Some by (simp add: deselectAllNotes_def on_note_def update_first_distinct [OF d])
qed

lemma selection_ok_deselectAllNotes:
  "selection_ok s \<Longrightarrow> selection_ok (deselectAllNotes s)"
  by (simp add: deselectAllNotes_eq)
     (auto simp: selection_ok_def set_selected_def live_iff comp_def)

lemma selectNote_eq:
  assumes "selection_ok s"
  shows "selectNote i s =
     s\<lparr>stickyNotes := map (\<lambda>n. set_selected (note_id n = i) n) (stickyNotes s),
       selectedNoteId := Some i\<rparr>"
proof -
  have d: "distinct (map note_id (map (set_selected False) (stickyNotes s)))"
    using assms by (simp add: selection_ok_def comp_def set_selected_def)
  have "(if note_id n = i then set_selected True n else n) = set_selected (note_id n = i) n"
    if "\<not> selected (element n)" for n
    using that by (simp add: set_selected_def)
  then show ?thesis
    unfolding selectNote_def deselectAllNotes_eq [OF assms] on_note_def
    by (simp add: update_first_distinct [OF d] comp_def set_selected_def)
qed

lemma selection_ok_selectNote:
  "selection_ok s \<Longrightarrow> live i s \<Longrightarrow> selection_ok (selectNote i s)"
  by (simp add: selectNote_eq)
     (auto simp: selection_ok_def set_selected_def live_iff comp_def image_image)

lemma selection_ok_removeNote:
  assumes "selection_ok s"
  shows "selection_ok (removeNote i s)"
proof (cases "find (has_id i) (stickyNotes s)")
  case None
  then show ?thesis using assms by (simp add: removeNote_def)
next
  case (Some n)
  have d: "distinct (map note_id (stickyNotes s))"
    using assms by (simp add: selection_ok_def)
  show ?thesis
    using assms Some
    by (auto simp: removeNote_def remove_first_distinct [OF d] selection_ok_def live_iff
          distinct_map_filter)
qed

lemma selection_ok_clearAllNotes: "selection_ok (clearAllNotes s)"
  by (simp add: clearAllNotes_def selection_ok_def)

lemma selection_ok_push:
  assumes "selection_ok s" and "note_id n = noteIdCounter s + 1" and "\<not> selected (element n)"
  shows "selection_ok (s\<lparr>noteIdCounter := noteIdCounter s + 1, stickyNotes := stickyNotes s @ [n]\<rparr>)"
  using assms by (fastforce simp: selection_ok_def live_iff)

lemma selection_ok_createStickyNote:
  "selection_ok s \<Longrightarrow> selection_ok (createStickyNote d x y s)"
  unfolding createStickyNote_def Let_def
  by (rule selection_ok_selectNote, rule selection_ok_push)
     (simp_all add: live_iff createElement_def)

lemma selection_ok_createStickyNoteFromData:
  "selection_ok s \<Longrightarrow> selection_ok (createStickyNoteFromData data s)"
  unfolding createStickyNoteFromData_def Let_def
  by (rule selection_ok_push) (simp_all add: createElement_def)

lemma selection_ok_deserializeNotes:
  "selection_ok s \<Longrightarrow> selection_ok (deserializeNotes d recs s)"
proof (induction recs arbitrary: s)
  case Nil
  then show ?case by simp
next
  case (Cons r recs)
  show ?case
  proof (cases "valid_xy r")
    case False
    then show ?thesis
      using Cons by (simp add: deserializeNotes_skip del: deserializeNotes.simps)
  next
    case True
    then obtain x y where "sv_x r = JNum x" "sv_y r = JNum y"
      using valid_xy_nums by blast
    then show ?thesis
      using Cons by (simp add: selection_ok_createStickyNoteFromData)
  qed
qed

lemma selection_ok_copySelectedNote:
  "selection_ok s \<Longrightarrow> selection_ok (copySelectedNote s)"
  by (simp add: copySelectedNote_def split: option.splits)

lemma selection_ok_pasteNote: "selection_ok s \<Longrightarrow> selection_ok (pasteNote d s)"
proof (cases "clipboardNote s")
  case None
  assume "selection_ok s"
  then show ?thesis using None by (simp add: pasteNote_def)
next
  case (Some c)
  assume "selection_ok s"
  then show ?thesis
    unfolding pasteNote_def Let_def Some option.case
    by (intro selection_ok_selectNote selection_ok_push)
       (simp_all add: live_iff createElement_def)
qed

lemma selection_ok_duplicateSelectedNote:
  "selection_ok s \<Longrightarrow> selection_ok (duplicateSelectedNote d s)"
proof (cases "getSelectedNote s")
  case None
  assume "selection_ok s"
  then show ?thesis using None by (simp add: duplicateSelectedNote_def)
next
  case (Some c)
  assume "selection_ok s"
  then show ?thesis
    unfolding duplicateSelectedNote_def Let_def Some option.case
    by (intro selection_ok_selectNote selection_ok_push)
       (simp_all add: live_iff createElement_def)
qed

lemma selection_ok_globalKeyDownHandler:
  assumes "selection_ok s"
  shows "selection_ok (globalKeyDownHandler d e s)"
proof -
  have 1: "selection_ok (key_create d e s)" if "selection_ok s" for s
    using that by (simp add: key_create_def)
  have 2: "selection_ok (key_copy d e s)" if "selection_ok s" for s
    using that by (simp add: key_copy_def selection_ok_copySelectedNote)
  have 3: "selection_ok (key_paste d e s)" if "selection_ok s" for s
    using that by (simp add: key_paste_def selection_ok_pasteNote)
  have 4: "selection_ok (key_duplicate d e s)" if "selection_ok s" for s
    using that by (simp add: key_duplicate_def selection_ok_duplicateSelectedNote)
  have 5: "selection_ok (key_delete d e s)" if "selection_ok s" for s
    using that by (simp add: key_delete_def selection_ok_removeNote split: option.splits)
  have 6: "selection_ok (key_escape d e s)" if "selection_ok s" for s
    using that
    by (simp add: key_escape_def selection_ok_deselectAllNotes selection_ok_on_note
          split: option.splits)
  show ?thesis
    unfolding globalKeyDownHandler_def by (intro 6 5 4 3 2 1 assms)
qed

lemma selection_ok_step:
  assumes "selection_ok s"
  shows "selection_ok (step d e s)"
proof (cases e)
  case (KeyDown x1)
  then show ?thesis using assms by (simp add: selection_ok_globalKeyDownHandler)
next
  case (KeyUp x2)
  then show ?thesis using assms by (simp add: globalKeyUpHandler_def)
next
  case (CanvasClick x y)
  then show ?thesis using assms by (simp add: selection_ok_createStickyNote)
next
  case (HeaderMouseDown i tg)
  have "selection_ok (selectNote i (on_note i (\<lambda>n. n\<lparr>isDragging := True\<rparr>) s))" if "live i s"
  proof (rule selection_ok_selectNote)
    show "selection_ok (on_note i (\<lambda>n. n\<lparr>isDragging := True\<rparr>) s)"
      using assms by (simp add: selection_ok_on_note)
    show "live i (on_note i (\<lambda>n. n\<lparr>isDragging := True\<rparr>) s)"
      using that by (simp add: live_on_note)
  qed
  then show ?thesis using HeaderMouseDown assms by simp
next
  case (MouseMove x y)
  then show ?thesis using assms by (simp add: selection_ok_map)
next
  case MouseUp
  then show ?thesis using assms by (simp add: selection_ok_map)
qed (use assms in \<open>simp_all add: selection_ok_deselectAllNotes selection_ok_selectNote
       selection_ok_on_note selection_ok_removeNote selection_ok_clearAllNotes
       selection_ok_deserializeNotes\<close>)

lemma selection_ok_run: "selection_ok s \<Longrightarrow> selection_ok (run es s)"
  by (induction es arbitrary: s) (auto simp: selection_ok_step)

lemma two_notes_eq:
  "two_notes =
     \<lparr>stickyNotes =
        [\<lparr>note_id = 1,
          element = \<lparr>selected = False, content = InnerHTML (parseMarkdown ''New note...''),
                     contentEditable = False, note_bg = Some ''#fef3c7'', note_fg = Some ''#92400e''\<rparr>,
          canvasX = 100, canvasY = 100, width = 240, height = 120,
          note_text = ''New note...'', color = ''yellow'', createdAt = 1705512345678,
          isEditing = False, isDragging = False, resizing = None\<rparr>,
         \<lparr>note_id = 2,
          element = \<lparr>selected = True, content = InnerHTML (parseMarkdown ''New note...''),
                     contentEditable = False, note_bg = Some ''#fef3c7'', note_fg = Some ''#92400e''\<rparr>,
          canvasX = 400, canvasY = 300, width = 240, height = 120,
          note_text = ''New note...'', color = ''yellow'', createdAt = 1705512345678,
          isEditing = False, isDragging = False, resizing = None\<rparr>],
      noteIdCounter = 2, selectedNoteId = Some 2, clipboardNote = None, isTKeyHeld = True\<rparr>"
  unfolding two_notes_def run.simps key_T_down first_click
  by (simp add: createStickyNote_def Let_def example_browser_def
        screenToCanvas_def selectNote_def deselectAllNotes_def on_note_def has_id_def
        set_selected_def renderNoteContent_def applyNoteColor_def createElement_def
        NOTE_COLORS_get_def NOTE_COLORS_def DEFAULT_COLOR_def DEFAULT_WIDTH_def DEFAULT_HEIGHT_def)

text \<open>
  C4. The selection is at most one id, and whenever it is set it is the id of a note of
  the store, which alone carries the class \<open>selected\<close>: this holds in the empty store
  and is preserved by every listener, so by every run of events, and by the bulk clear.
  Selecting a note B of the store, whatever was selected, leaves B selected and marks B
  and no other note; removing the selected note clears the selection; removing another
  note leaves the selection as it is.
\<close>

theorem selection_singleton:
  "selection_ok initial_state
   \<and> (selection_ok s \<longrightarrow> selection_ok (step d e s))
   \<and> (selection_ok s \<longrightarrow> selection_ok (run es s))
   \<and> (selection_ok s \<and> live b s
        \<longrightarrow> selectedNoteId (selectNote b s) = Some b
          \<and> (\<forall>n \<in> set (stickyNotes (selectNote b s)). selected (element n) = (note_id n = b))
          \<and> map note_id (stickyNotes (selectNote b s)) = map note_id (stickyNotes s))
   \<and> (selection_ok s \<and> selectedNoteId s = Some i
        \<longrightarrow> selectedNoteId (removeNote i s) = None \<and> \<not> live i (removeNote i s))
   \<and> (selectedNoteId s \<noteq> Some i \<longrightarrow> selectedNoteId (removeNote i s) = selectedNoteId s)
   \<and> selectedNoteId (clearAllNotes s) = None
   \<and> selection_ok (clearAllNotes s)"
proof -
  have "selection_ok initial_state"
    by (simp add: selection_ok_def initial_state_def)
  moreover have "selectedNoteId (selectNote b s) = Some b
          \<and> (\<forall>n \<in> set (stickyNotes (selectNote b s)). selected (element n) = (note_id n = b))
          \<and> map note_id (stickyNotes (selectNote b s)) = map note_id (stickyNotes s)"
    if "selection_ok s"
    using that by (simp add: selectNote_eq set_selected_def comp_def)
  moreover have "selectedNoteId (removeNote i s) = None \<and> \<not> live i (removeNote i s)"
    if ok: "selection_ok s" and sel: "selectedNoteId s = Some i"
  proof -
    have "live i s" using ok sel by (simp add: selection_ok_def)
    then obtain n where n: "find (has_id i) (stickyNotes s) = Some n"
      by (auto simp: live_def)
    have d: "distinct (map note_id (stickyNotes s))"
      using ok by (simp add: selection_ok_def)
    show ?thesis
      using n sel by (auto simp: removeNote_def live_iff remove_first_distinct [OF d])
  qed
  moreover have "selectedNoteId (removeNote i s) = selectedNoteId s" if "selectedNoteId s \<noteq> Some i"
    using that by (simp add: removeNote_def split: option.splits)
  moreover have "selectedNoteId (clearAllNotes s) = None"
    by (simp add: clearAllNotes_def)
  ultimately show ?thesis
    using selection_ok_step [of s d e] selection_ok_run [of s es] selection_ok_clearAllNotes [of s]
    by blast
qed

text \<open>
  C4 on two notes, the second of which is selected: selecting the first marks it alone,
  removing the second clears the selection, removing the first leaves it.
\<close>

theorem selection_singleton_witness:
  "selection_ok two_notes \<and> live 1 two_notes
   \<and> selectedNoteId two_notes = Some 2
   \<and> selectedNoteId (selectNote 1 two_notes) = Some 1
   \<and> map (selected \<circ> element) (stickyNotes (selectNote 1 two_notes)) = [True, False]
   \<and> selectedNoteId (removeNote 2 two_notes) = None
   \<and> selectedNoteId (removeNote 1 two_notes) = Some 2"
proof -
  note w = selection_singleton [of initial_state example_browser "KeyDown key_T"
      "[(example_browser, KeyDown key_T), (example_browser, CanvasClick 100 100),
        (example_browser, CanvasClick 400 300)]"]
  have ok: "selection_ok two_notes"
    using w unfolding two_notes_def by blast
  have l: "live 1 two_notes"
    by (simp add: live_def two_notes_eq has_id_def)
  have s2: "selectedNoteId two_notes = Some 2"
    by (simp add: two_notes_eq)
  have ne: "selectedNoteId two_notes \<noteq> Some 1"
    by (simp add: two_notes_eq)
  note v = selection_singleton [of two_notes example_browser "KeyDown key_T" "[]" 1 2]
  note v1 = selection_singleton [of two_notes example_browser "KeyDown key_T" "[]" 1 1]
  have a: "selectedNoteId (selectNote 1 two_notes) = Some 1"
    using v ok l by blast
  have b: "selectedNoteId (removeNote 2 two_notes) = None"
    using v ok s2 by blast
  have c: "selectedNoteId (removeNote 1 two_notes) = Some 2"
    using v1 ne s2 by simp
  have f: "map (selected \<circ> element) (stickyNotes (selectNote 1 two_notes)) = [True, False]"
    by (simp add: selectNote_eq [OF ok]) (simp add: two_notes_eq set_selected_def)
  show ?thesis
    using ok l s2 a b c f by simp
qed

end
